theory Spec2Isabelle
  imports Main
begin

section \<open>Values, objects and the heap\<close>

text \<open>
  The history component of \<^verbatim>\<open>src/factorio-data/history.ts\<close> mutates objects that its
  callers own. Objects are shared by reference (a value slot of an action may hold a
  reference, and the apply closure of an action walks from its target again on every
  call), so the model keeps them in a store: an address names an object, and an object
  is a plain object, a \<^verbatim>\<open>Map\<close> or an array. Each of them has own data properties under
  string keys; a \<^verbatim>\<open>Map\<close> has its entries besides, an array its elements, an element
  being absent where the array has a hole. The values are the primitives and the
  references to such objects; numbers are integers, and a string is a list of
  characters that \<^verbatim>\<open>length\<close> counts one by one.

  The file is an ECMAScript module, so its code runs in strict mode: an assignment that
  cannot be carried out throws \<open>TypeError\<close>, and so does the deletion of a property that
  cannot be deleted.

  What the model leaves out is reported as the fault \<open>Unsupported\<close>, never guessed. The
  built-in objects of the engine, the prototypes and their methods, are not in the
  store: the read of a member that an object does not own but inherits would yield
  one of them and is \<open>Unsupported\<close>, and so is the assignment to \<^verbatim>\<open>__proto__\<close> where that
  is the inherited accessor, which would change a prototype link. The names of the
  inherited members are those of ECMAScript 2023. Accessor properties, frozen objects
  and the enumeration order of keys are not modelled.
\<close>

type_synonym addr = nat

datatype jsval = Undefined | Null | Bool bool | Num int | Str string | Ref addr

datatype jsobj =
    Record "string \<rightharpoonup> jsval"
  | MapObj "string \<rightharpoonup> jsval" "jsval \<rightharpoonup> jsval"
  | Arr "string \<rightharpoonup> jsval" "jsval option list"

type_synonym heap = "addr \<Rightarrow> jsobj"

fun props_of :: "jsobj \<Rightarrow> (string \<rightharpoonup> jsval)" where
  "props_of (Record ps) = ps"
| "props_of (MapObj ps m) = ps"
| "props_of (Arr ps es) = ps"

datatype error = TypeError | RangeError | Unsupported

text \<open>A call either returns a value or throws; both leave a state behind.\<close>

datatype ('a, 's) outcome = Done 'a 's | Threw error 's

fun state_of :: "('a, 's) outcome \<Rightarrow> 's" where
  "state_of (Done x s) = s"
| "state_of (Threw e s) = s"

fun returned :: "('a, 's) outcome \<Rightarrow> bool" where
  "returned (Done x s) = True"
| "returned (Threw e s) = False"

subsection \<open>Array indices\<close>

text \<open>
  A key is an array index when it is the decimal numeral, without a leading zero, of a
  number below 4294967295. Any other key of an array, \<^verbatim>\<open>length\<close> apart, is an ordinary
  property.
\<close>

definition digit_of :: "char \<Rightarrow> nat option" where
  "digit_of c =
     (let n = (of_char c :: nat) in
        if 48 \<le> n \<and> n \<le> 57 then Some (n - 48) else None)"

fun digits_val :: "string \<Rightarrow> nat \<Rightarrow> nat option" where
  "digits_val [] n = Some n"
| "digits_val (c # cs) n =
     (case digit_of c of
        None \<Rightarrow> None
      | Some d \<Rightarrow> digits_val cs (10 * n + d))"

definition index_of :: "string \<Rightarrow> nat option" where
  "index_of k =
     (case k of
        [] \<Rightarrow> None
      | c # cs \<Rightarrow>
          if c = CHR ''0'' \<and> cs \<noteq> [] then None
          else (case digits_val k 0 of
                  None \<Rightarrow> None
                | Some n \<Rightarrow> if n < 4294967295 then Some n else None))"

subsection \<open>Inherited members\<close>

definition object_proto :: "string list" where
  "object_proto =
     [''constructor'', ''hasOwnProperty'', ''isPrototypeOf'', ''propertyIsEnumerable'',
      ''toString'', ''toLocaleString'', ''valueOf'', ''__proto__'',
      ''__defineGetter__'', ''__defineSetter__'', ''__lookupGetter__'', ''__lookupSetter__'']"

definition array_proto :: "string list" where
  "array_proto =
     [''at'', ''concat'', ''copyWithin'', ''entries'', ''every'', ''fill'', ''filter'', ''find'',
      ''findIndex'', ''findLast'', ''findLastIndex'', ''flat'', ''flatMap'', ''forEach'',
      ''includes'', ''indexOf'', ''join'', ''keys'', ''lastIndexOf'', ''map'', ''pop'', ''push'',
      ''reduce'', ''reduceRight'', ''reverse'', ''shift'', ''slice'', ''some'', ''sort'',
      ''splice'', ''toReversed'', ''toSorted'', ''toSpliced'', ''unshift'', ''values'', ''with'']"

definition map_proto :: "string list" where
  "map_proto =
     [''clear'', ''delete'', ''entries'', ''forEach'', ''get'', ''has'', ''keys'', ''set'', ''size'',
      ''values'']"

definition number_proto :: "string list" where
  "number_proto = [''toExponential'', ''toFixed'', ''toPrecision'']"

definition string_proto :: "string list" where
  "string_proto =
     [''anchor'', ''at'', ''big'', ''blink'', ''bold'', ''charAt'', ''charCodeAt'', ''codePointAt'',
      ''concat'', ''endsWith'', ''fixed'', ''fontcolor'', ''fontsize'', ''includes'', ''indexOf'',
      ''isWellFormed'', ''italics'', ''lastIndexOf'', ''link'', ''localeCompare'', ''match'',
      ''matchAll'', ''normalize'', ''padEnd'', ''padStart'', ''repeat'', ''replace'',
      ''replaceAll'', ''search'', ''slice'', ''small'', ''split'', ''startsWith'', ''strike'',
      ''sub'', ''substr'', ''substring'', ''sup'', ''toLocaleLowerCase'', ''toLocaleUpperCase'',
      ''toLowerCase'', ''toUpperCase'', ''toWellFormed'', ''trim'', ''trimEnd'', ''trimLeft'',
      ''trimRight'', ''trimStart'']"

text \<open>
  The read of a key that is neither an index nor \<^verbatim>\<open>length\<close>: the own property if there
  is one, \<^verbatim>\<open>undefined\<close> if the key names nothing, and a built-in object otherwise.
\<close>

definition own_or_inherited :: "string list \<Rightarrow> (string \<rightharpoonup> jsval) \<Rightarrow> string \<Rightarrow> error + jsval" where
  "own_or_inherited proto ps k =
     (case ps k of
        Some v \<Rightarrow> Inr v
      | None \<Rightarrow> if k \<in> set proto then Inl Unsupported else Inr Undefined)"

subsection \<open>The four operations on a property\<close>

text \<open>\<^verbatim>\<open>obj[k]\<close>: the read of a property.\<close>

definition get_prop :: "heap \<Rightarrow> jsval \<Rightarrow> string \<Rightarrow> error + jsval" where
  "get_prop h obj k =
     (case obj of
        Undefined \<Rightarrow> Inl TypeError
      | Null \<Rightarrow> Inl TypeError
      | Bool b \<Rightarrow> own_or_inherited object_proto Map.empty k
      | Num n \<Rightarrow> own_or_inherited (number_proto @ object_proto) Map.empty k
      | Str s \<Rightarrow>
          (case index_of k of
             Some i \<Rightarrow> Inr (if i < length s then Str [s ! i] else Undefined)
           | None \<Rightarrow>
               if k = ''length'' then Inr (Num (int (length s)))
               else own_or_inherited (string_proto @ object_proto) Map.empty k)
      | Ref a \<Rightarrow>
          (case h a of
             Record ps \<Rightarrow> own_or_inherited object_proto ps k
           | MapObj ps m \<Rightarrow> own_or_inherited (map_proto @ object_proto) ps k
           | Arr ps es \<Rightarrow>
               (case index_of k of
                  Some i \<Rightarrow>
                    Inr (if i < length es
                         then (case es ! i of None \<Rightarrow> Undefined | Some v \<Rightarrow> v)
                         else Undefined)
                | None \<Rightarrow>
                    if k = ''length'' then Inr (Num (int (length es)))
                    else own_or_inherited (array_proto @ object_proto) ps k)))"

text \<open>
  \<^verbatim>\<open>obj.hasOwnProperty(k)\<close>. The method is itself looked up on the object: no value of
  the model is a function, so an own property of that name hides the method behind
  something that cannot be called. Otherwise the answer is about own properties only.
\<close>

definition has_own :: "heap \<Rightarrow> jsval \<Rightarrow> string \<Rightarrow> error + bool" where
  "has_own h obj k =
     (case obj of
        Undefined \<Rightarrow> Inl TypeError
      | Null \<Rightarrow> Inl TypeError
      | Bool b \<Rightarrow> Inr False
      | Num n \<Rightarrow> Inr False
      | Str s \<Rightarrow>
          Inr (case index_of k of
                 Some i \<Rightarrow> i < length s
               | None \<Rightarrow> k = ''length'')
      | Ref a \<Rightarrow>
          if props_of (h a) ''hasOwnProperty'' \<noteq> None then Inl TypeError
          else
            (case h a of
               Record ps \<Rightarrow> Inr (ps k \<noteq> None)
             | MapObj ps m \<Rightarrow> Inr (ps k \<noteq> None)
             | Arr ps es \<Rightarrow>
                 (case index_of k of
                    Some i \<Rightarrow> Inr (i < length es \<and> es ! i \<noteq> None)
                  | None \<Rightarrow> Inr (k = ''length'' \<or> ps k \<noteq> None))))"

text \<open>
  \<^verbatim>\<open>arr.length = v\<close> for a number: the elements from the new length on are dropped, or
  holes are added up to it, and a number that is no length throws \<open>RangeError\<close>, as
  \<^verbatim>\<open>undefined\<close> does. Other values would be converted first, which the model leaves out.
\<close>

definition set_length :: "jsval option list \<Rightarrow> jsval \<Rightarrow> error + jsval option list" where
  "set_length es v =
     (case v of
        Num n \<Rightarrow>
          if 0 \<le> n \<and> n < 4294967296
          then Inr (if nat n \<le> length es then take (nat n) es
                    else es @ replicate (nat n - length es) None)
          else Inl RangeError
      | Undefined \<Rightarrow> Inl RangeError
      | _ \<Rightarrow> Inl Unsupported)"

text \<open>
  \<^verbatim>\<open>obj[k] = v\<close>. On an array an index at or beyond the length makes the array longer.
  A primitive takes no property, and \<^verbatim>\<open>size\<close> of a \<^verbatim>\<open>Map\<close> is an accessor without a
  setter.
\<close>

definition set_prop :: "heap \<Rightarrow> jsval \<Rightarrow> string \<Rightarrow> jsval \<Rightarrow> error + heap" where
  "set_prop h obj k v =
     (case obj of
        Undefined \<Rightarrow> Inl TypeError
      | Null \<Rightarrow> Inl TypeError
      | Ref a \<Rightarrow>
          (case h a of
             Record ps \<Rightarrow>
               if k = ''__proto__'' \<and> ps k = None then Inl Unsupported
               else Inr (h(a := Record (ps(k \<mapsto> v))))
           | MapObj ps m \<Rightarrow>
               if k = ''__proto__'' \<and> ps k = None then Inl Unsupported
               else if k = ''size'' \<and> ps k = None then Inl TypeError
               else Inr (h(a := MapObj (ps(k \<mapsto> v)) m))
           | Arr ps es \<Rightarrow>
               (case index_of k of
                  Some i \<Rightarrow>
                    Inr (h(a := Arr ps
                           (if i < length es then es[i := Some v]
                            else es @ replicate (i - length es) None @ [Some v])))
                | None \<Rightarrow>
                    if k = ''length'' then
                      (case set_length es v of
                         Inl e \<Rightarrow> Inl e
                       | Inr es' \<Rightarrow> Inr (h(a := Arr ps es')))
                    else if k = ''__proto__'' \<and> ps k = None then Inl Unsupported
                    else Inr (h(a := Arr (ps(k \<mapsto> v)) es))))
      | _ \<Rightarrow> if k = ''__proto__'' then Inl Unsupported else Inl TypeError)"

text \<open>
  \<^verbatim>\<open>delete obj[k]\<close>. Deleting what is not there does nothing; deleting an element of an
  array leaves a hole and the length as it is; the length of an array and the own
  properties of a string cannot be deleted.
\<close>

definition delete_prop :: "heap \<Rightarrow> jsval \<Rightarrow> string \<Rightarrow> error + heap" where
  "delete_prop h obj k =
     (case obj of
        Undefined \<Rightarrow> Inl TypeError
      | Null \<Rightarrow> Inl TypeError
      | Bool b \<Rightarrow> Inr h
      | Num n \<Rightarrow> Inr h
      | Str s \<Rightarrow>
          (case index_of k of
             Some i \<Rightarrow> if i < length s then Inl TypeError else Inr h
           | None \<Rightarrow> if k = ''length'' then Inl TypeError else Inr h)
      | Ref a \<Rightarrow>
          (case h a of
             Record ps \<Rightarrow> Inr (h(a := Record (ps(k := None))))
           | MapObj ps m \<Rightarrow> Inr (h(a := MapObj (ps(k := None)) m))
           | Arr ps es \<Rightarrow>
               (case index_of k of
                  Some i \<Rightarrow> Inr (if i < length es then h(a := Arr ps (es[i := None])) else h)
                | None \<Rightarrow>
                    if k = ''length'' then Inl TypeError
                    else Inr (h(a := Arr (ps(k := None)) es)))))"

section \<open>The data of the component\<close>

datatype HistoryValue = New | Old

text \<open>\<^verbatim>\<open>IValueInfo<V>\<close>: a value together with the flag that tells absence from \<^verbatim>\<open>undefined\<close>.\<close>

record IValueInfo =
  val :: jsval
  exists :: bool

datatype HistoryType = Init | Add | Del | Mov | Upd

record IHistoryData =
  type :: HistoryType
  entity_number :: int
  other_entity :: "int option"

section \<open>The accessor of a value at a path\<close>

text \<open>
  The three private functions recurse on \<^verbatim>\<open>path.slice(1)\<close> until one segment is left.
  With an empty path \<^verbatim>\<open>path[0]\<close> is \<^verbatim>\<open>undefined\<close>, the key read is \<^verbatim>\<open>"undefined"\<close> and
  the path stays empty: the recursion goes on until that read lands on \<^verbatim>\<open>undefined\<close>,
  where it throws \<open>TypeError\<close>, or the stack is used up. It never returns; the model
  follows its first step.
\<close>

definition empty_path :: "heap \<Rightarrow> jsval \<Rightarrow> error" where
  "empty_path h obj =
     (case get_prop h obj ''undefined'' of
        Inl e \<Rightarrow> e
      | Inr Undefined \<Rightarrow> TypeError
      | Inr _ \<Rightarrow> Unsupported)"

fun s_GetValue :: "heap \<Rightarrow> jsval \<Rightarrow> string list \<Rightarrow> error + IValueInfo" where
  "s_GetValue h obj [] = Inl (empty_path h obj)"
| "s_GetValue h obj [k] =
     (case has_own h obj k of
        Inl e \<Rightarrow> Inl e
      | Inr True \<Rightarrow>
          (case get_prop h obj k of
             Inl e \<Rightarrow> Inl e
           | Inr v \<Rightarrow> Inr \<lparr>val = v, exists = True\<rparr>)
      | Inr False \<Rightarrow> Inr \<lparr>val = Undefined, exists = False\<rparr>)"
| "s_GetValue h obj (k # ks) =
     (case get_prop h obj k of
        Inl e \<Rightarrow> Inl e
      | Inr obj' \<Rightarrow> s_GetValue h obj' ks)"

fun s_SetValue :: "heap \<Rightarrow> jsval \<Rightarrow> string list \<Rightarrow> IValueInfo \<Rightarrow> error + heap" where
  "s_SetValue h obj [] v = Inl (empty_path h obj)"
| "s_SetValue h obj [k] v = set_prop h obj k (val v)"
| "s_SetValue h obj (k # ks) v =
     (case get_prop h obj k of
        Inl e \<Rightarrow> Inl e
      | Inr obj' \<Rightarrow> s_SetValue h obj' ks v)"

fun s_DeleteValue :: "heap \<Rightarrow> jsval \<Rightarrow> string list \<Rightarrow> error + heap" where
  "s_DeleteValue h obj [] = Inl (empty_path h obj)"
| "s_DeleteValue h obj [k] = delete_prop h obj k"
| "s_DeleteValue h obj (k # ks) =
     (case get_prop h obj k of
        Inl e \<Rightarrow> Inl e
      | Inr obj' \<Rightarrow> s_DeleteValue h obj' ks)"

section \<open>The operations of a Map\<close>

text \<open>
  \<^verbatim>\<open>targetMap.has(key)\<close>, \<^verbatim>\<open>get\<close>, \<^verbatim>\<open>set\<close> and \<^verbatim>\<open>delete\<close>. Each is a method that is
  looked up on the object first: an own property of the name hides it behind something
  that cannot be called. Anything that is not a \<^verbatim>\<open>Map\<close> has no callable member of these
  names, and the call throws.
\<close>

definition map_has :: "heap \<Rightarrow> jsval \<Rightarrow> jsval \<Rightarrow> error + bool" where
  "map_has h targetMap key =
     (case targetMap of
        Ref a \<Rightarrow>
          (case h a of
             MapObj ps m \<Rightarrow> if ps ''has'' \<noteq> None then Inl TypeError else Inr (m key \<noteq> None)
           | _ \<Rightarrow> Inl TypeError)
      | _ \<Rightarrow> Inl TypeError)"

definition map_get :: "heap \<Rightarrow> jsval \<Rightarrow> jsval \<Rightarrow> error + jsval" where
  "map_get h targetMap key =
     (case targetMap of
        Ref a \<Rightarrow>
          (case h a of
             MapObj ps m \<Rightarrow>
               if ps ''get'' \<noteq> None then Inl TypeError
               else Inr (case m key of None \<Rightarrow> Undefined | Some v \<Rightarrow> v)
           | _ \<Rightarrow> Inl TypeError)
      | _ \<Rightarrow> Inl TypeError)"

definition map_set :: "heap \<Rightarrow> jsval \<Rightarrow> jsval \<Rightarrow> jsval \<Rightarrow> error + heap" where
  "map_set h targetMap key v =
     (case targetMap of
        Ref a \<Rightarrow>
          (case h a of
             MapObj ps m \<Rightarrow>
               if ps ''set'' \<noteq> None then Inl TypeError
               else Inr (h(a := MapObj ps (m(key \<mapsto> v))))
           | _ \<Rightarrow> Inl TypeError)
      | _ \<Rightarrow> Inl TypeError)"

definition map_delete :: "heap \<Rightarrow> jsval \<Rightarrow> jsval \<Rightarrow> error + heap" where
  "map_delete h targetMap key =
     (case targetMap of
        Ref a \<Rightarrow>
          (case h a of
             MapObj ps m \<Rightarrow>
               if ps ''delete'' \<noteq> None then Inl TypeError
               else Inr (h(a := MapObj ps (m(key := None))))
           | _ \<Rightarrow> Inl TypeError)
      | _ \<Rightarrow> Inl TypeError)"

section \<open>Actions\<close>

text \<open>
  What a callback registered with \<^verbatim>\<open>emit\<close> can reach is the heap and the console; it
  returns or throws. A callback that calls back into the history component is outside
  the model.
\<close>

datatype logkind = Plain | Undo | Redo

datatype logline = EntryLine "int list" logkind string | Printed string

record world =
  heap :: heap
  console :: "logline list"

type_synonym callback = "world \<Rightarrow> (unit, world) outcome"

text \<open>
  The constructor of \<^verbatim>\<open>HistoryAction\<close> is called at two places only, each with a lambda
  expression of its own. A closure is that lambda with the variables it captures:
  \<^verbatim>\<open>target\<close> and \<^verbatim>\<open>path\<close> in \<^verbatim>\<open>updateValue\<close>, \<^verbatim>\<open>targetMap\<close> and \<^verbatim>\<open>key\<close> in \<^verbatim>\<open>updateMap\<close>.
\<close>

datatype closure = ValueClosure jsval "string list" | MapClosure jsval jsval

fun call_closure :: "closure \<Rightarrow> IValueInfo \<Rightarrow> heap \<Rightarrow> error + heap" where
  "call_closure (ValueClosure target path) v h =
     (if \<not> exists v then
        (case s_GetValue h target path of
           Inl e \<Rightarrow> Inl e
         | Inr current \<Rightarrow>
             if exists current then s_DeleteValue h target path else Inr h)
      else s_SetValue h target path v)"
| "call_closure (MapClosure targetMap key) v h =
     (if \<not> exists v then
        (case map_has h targetMap key of
           Inl e \<Rightarrow> Inl e
         | Inr present \<Rightarrow>
             if present then map_delete h targetMap key else Inr h)
      else map_set h targetMap key (val v))"

record HistoryAction =
  m_OldValue :: IValueInfo
  m_NewValue :: IValueInfo
  m_Data :: "IHistoryData option"
  m_Apply :: closure
  m_Emits :: "callback list"

definition new_HistoryAction ::
  "IValueInfo \<Rightarrow> IValueInfo \<Rightarrow> IHistoryData option \<Rightarrow> closure \<Rightarrow> HistoryAction" where
  "new_HistoryAction oldValue newValue data apply =
     \<lparr>m_OldValue = oldValue, m_NewValue = newValue, m_Data = data, m_Apply = apply,
      m_Emits = []\<rparr>"

text \<open>The \<^verbatim>\<open>for\<close> loop over \<^verbatim>\<open>m_Emits\<close>: a callback that throws ends it.\<close>

fun run_emits :: "callback list \<Rightarrow> world \<Rightarrow> (unit, world) outcome" where
  "run_emits [] w = Done () w"
| "run_emits (f # fs) w =
     (case f w of
        Threw e w' \<Rightarrow> Threw e w'
      | Done u w' \<Rightarrow> run_emits fs w')"

text \<open>
  \<^verbatim>\<open>HistoryAction.apply\<close>. The closure throws before it writes, so a throw of the closure
  leaves the world as it was. The last line reads \<^verbatim>\<open>entity_number\<close> from \<^verbatim>\<open>m_Data\<close>,
  which is \<^verbatim>\<open>undefined\<close> when the caller gave no data.
\<close>

definition chosen :: "HistoryValue \<Rightarrow> HistoryAction \<Rightarrow> IValueInfo" where
  "chosen v a = (if v = New then m_NewValue a else m_OldValue a)"

definition HistoryAction_apply ::
  "HistoryValue \<Rightarrow> HistoryAction \<Rightarrow> world \<Rightarrow> (int, world) outcome" where
  "HistoryAction_apply v a w =
     (case call_closure (m_Apply a) (chosen v a) (heap w) of
        Inl e \<Rightarrow> Threw e w
      | Inr h' \<Rightarrow>
          (case (if length (m_Emits a) > 0 then run_emits (m_Emits a) (w\<lparr>heap := h'\<rparr>)
                 else Done () (w\<lparr>heap := h'\<rparr>)) of
             Threw e w' \<Rightarrow> Threw e w'
           | Done u w' \<Rightarrow>
               (case m_Data a of
                  None \<Rightarrow> Threw TypeError w'
                | Some d \<Rightarrow> Done (entity_number d) w')))"

text \<open>\<^verbatim>\<open>HistoryAction.emit\<close> appends the callback and returns the action.\<close>

definition emit :: "callback \<Rightarrow> HistoryAction \<Rightarrow> HistoryAction" where
  "emit f a = a\<lparr>m_Emits := m_Emits a @ [f]\<rparr>"

section \<open>Entries\<close>

record HistoryEntry =
  m_Text :: "string option"
  m_Actions :: "HistoryAction list"

definition new_HistoryEntry :: "string option \<Rightarrow> HistoryEntry" where
  "new_HistoryEntry text = \<lparr>m_Text = text, m_Actions = []\<rparr>"

definition push :: "HistoryAction \<Rightarrow> HistoryEntry \<Rightarrow> HistoryEntry" where
  "push action e = e\<lparr>m_Actions := m_Actions e @ [action]\<rparr>"

text \<open>
  The loop that \<^verbatim>\<open>apply\<close>, \<^verbatim>\<open>undo\<close> and \<^verbatim>\<open>redo\<close> of an entry each write out: it walks
  \<^verbatim>\<open>m_Actions\<close> from the first element and collects what each action returns.
\<close>

fun apply_actions ::
  "HistoryValue \<Rightarrow> HistoryAction list \<Rightarrow> int list \<Rightarrow> world \<Rightarrow> (int list, world) outcome" where
  "apply_actions v [] entityNumbers w = Done entityNumbers w"
| "apply_actions v (action # rest) entityNumbers w =
     (case HistoryAction_apply v action w of
        Threw e w' \<Rightarrow> Threw e w'
      | Done n w' \<Rightarrow> apply_actions v rest (entityNumbers @ [n]) w')"

definition log_line :: "string option \<Rightarrow> int list \<Rightarrow> logkind \<Rightarrow> world \<Rightarrow> world" where
  "log_line text entityNumbers kind w =
     (case text of
        None \<Rightarrow> w
      | Some t \<Rightarrow> w\<lparr>console := console w @ [EntryLine entityNumbers kind t]\<rparr>)"

definition HistoryEntry_apply :: "HistoryValue \<Rightarrow> HistoryEntry \<Rightarrow> world \<Rightarrow> (unit, world) outcome" where
  "HistoryEntry_apply v e w =
     (case apply_actions v (m_Actions e) [] w of
        Threw err w' \<Rightarrow> Threw err w'
      | Done entityNumbers w' \<Rightarrow> Done () (log_line (m_Text e) entityNumbers Plain w'))"

definition HistoryEntry_undo :: "HistoryEntry \<Rightarrow> world \<Rightarrow> (unit, world) outcome" where
  "HistoryEntry_undo e w =
     (case apply_actions Old (m_Actions e) [] w of
        Threw err w' \<Rightarrow> Threw err w'
      | Done entityNumbers w' \<Rightarrow> Done () (log_line (m_Text e) entityNumbers Undo w'))"

definition HistoryEntry_redo :: "HistoryEntry \<Rightarrow> world \<Rightarrow> (unit, world) outcome" where
  "HistoryEntry_redo e w =
     (case apply_actions New (m_Actions e) [] w of
        Threw err w' \<Rightarrow> Threw err w'
      | Done entityNumbers w' \<Rightarrow> Done () (log_line (m_Text e) entityNumbers Redo w'))"

text \<open>\<^verbatim>\<open>m_Actions.map(a => a.data.entity_number)\<close> throws at an action without data.\<close>

fun entity_numbers :: "HistoryAction list \<Rightarrow> error + int list" where
  "entity_numbers [] = Inr []"
| "entity_numbers (a # rest) =
     (case m_Data a of
        None \<Rightarrow> Inl TypeError
      | Some d \<Rightarrow>
          (case entity_numbers rest of
             Inl e \<Rightarrow> Inl e
           | Inr ns \<Rightarrow> Inr (entity_number d # ns)))"

definition HistoryEntry_log :: "HistoryEntry \<Rightarrow> world \<Rightarrow> (unit, world) outcome" where
  "HistoryEntry_log e w =
     (case entity_numbers (m_Actions e) of
        Inl err \<Rightarrow> Threw err w
      | Inr entityNumbers \<Rightarrow> Done () (log_line (m_Text e) entityNumbers Plain w))"

definition HistoryEntry_data :: "HistoryEntry \<Rightarrow> IHistoryData option" where
  "HistoryEntry_data e =
     (if length (m_Actions e) > 0 then m_Data (last (m_Actions e)) else None)"

section \<open>The history and the open transaction\<close>

text \<open>
  The three module variables and the world the actions work on. The index is a
  JavaScript number that only \<^verbatim>\<open>++\<close> and \<^verbatim>\<open>--\<close> ever change: an integer.
\<close>

record state =
  s_HistoryIndex :: int
  s_HistoryEntries :: "HistoryEntry list"
  s_Transaction :: "HistoryEntry option"
  world :: world

text \<open>\<^verbatim>\<open>s_HistoryEntries[i]\<close> is \<^verbatim>\<open>undefined\<close> outside the array.\<close>

definition entry_at :: "HistoryEntry list \<Rightarrow> int \<Rightarrow> HistoryEntry option" where
  "entry_at es i = (if 0 \<le> i \<and> i < int (length es) then Some (es ! nat i) else None)"

text \<open>
  The \<^verbatim>\<open>while\<close> loop of \<^verbatim>\<open>s_CommitTransaction\<close>. \<^verbatim>\<open>pop\<close> leaves an empty array empty,
  so under a negative index the loop never ends: not returning is the value \<open>None\<close>.
\<close>

partial_function (option) pop_entries :: "HistoryEntry list \<Rightarrow> int \<Rightarrow> HistoryEntry list option" where
  "pop_entries es i = (if int (length es) > i then pop_entries (butlast es) i else Some es)"

definition s_CommitTransaction :: "HistoryEntry \<Rightarrow> state \<Rightarrow> state option" where
  "s_CommitTransaction transaction s =
     (case pop_entries (s_HistoryEntries s) (s_HistoryIndex s) of
        None \<Rightarrow> None
      | Some es \<Rightarrow>
          Some (s\<lparr>s_HistoryEntries := es @ [transaction],
                  s_HistoryIndex := s_HistoryIndex s + 1\<rparr>))"

text \<open>
  The part that \<^verbatim>\<open>updateValue\<close> and \<^verbatim>\<open>updateMap\<close> share word for word: the choice of
  the entry, the push, and the two ways of applying. The action is what the caller
  gets back: in the source the caller's handle and the action stored in the entry are
  one object, here the call returns the value of the action, and a callback that the
  caller registers through the handle is \<open>emit\<close> applied to the stored action.
\<close>

definition route_action :: "string option \<Rightarrow> HistoryAction \<Rightarrow> state \<Rightarrow> (HistoryAction, state) outcome option" where
  "route_action text historyAction s =
     (case s_Transaction s of
        None \<Rightarrow>
          (let transaction = push historyAction (new_HistoryEntry text) in
           case HistoryEntry_apply New transaction (world s) of
             Threw e w \<Rightarrow> Some (Threw e (s\<lparr>world := w\<rparr>))
           | Done u w \<Rightarrow>
               (case s_CommitTransaction transaction (s\<lparr>world := w\<rparr>) of
                  None \<Rightarrow> None
                | Some s' \<Rightarrow> Some (Done historyAction s')))
      | Some open_entry \<Rightarrow>
          (let s1 = s\<lparr>s_Transaction := Some (push historyAction open_entry)\<rparr> in
           case HistoryAction_apply New historyAction (world s1) of
             Threw e w \<Rightarrow> Some (Threw e (s1\<lparr>world := w\<rparr>))
           | Done n w \<Rightarrow> Some (Done historyAction (s1\<lparr>world := w\<rparr>))))"

definition updateValue ::
  "jsval \<Rightarrow> string list \<Rightarrow> jsval \<Rightarrow> string option \<Rightarrow> IHistoryData option \<Rightarrow> bool \<Rightarrow> state
     \<Rightarrow> (HistoryAction, state) outcome option" where
  "updateValue target path value text data remove s =
     (case s_GetValue (heap (world s)) target path of
        Inl e \<Rightarrow> Some (Threw e s)
      | Inr oldValue \<Rightarrow>
          (let newValue = \<lparr>val = value, exists = (if remove then False else True)\<rparr>;
               historyAction = new_HistoryAction oldValue newValue data (ValueClosure target path)
           in route_action text historyAction s))"

definition updateMap ::
  "jsval \<Rightarrow> jsval \<Rightarrow> jsval \<Rightarrow> string option \<Rightarrow> IHistoryData option \<Rightarrow> bool \<Rightarrow> state
     \<Rightarrow> (HistoryAction, state) outcome option" where
  "updateMap targetMap key value text data remove s =
     (case map_has (heap (world s)) targetMap key of
        Inl e \<Rightarrow> Some (Threw e s)
      | Inr present \<Rightarrow>
          (case (if present then map_get (heap (world s)) targetMap key else Inr Undefined) of
             Inl e \<Rightarrow> Some (Threw e s)
           | Inr old \<Rightarrow>
               (let oldValue = \<lparr>val = old, exists = present\<rparr>;
                    newValue = \<lparr>val = value, exists = (if remove then False else True)\<rparr>;
                    historyAction = new_HistoryAction oldValue newValue data (MapClosure targetMap key)
                in route_action text historyAction s)))"

definition canUndo :: "state \<Rightarrow> bool" where
  "canUndo s = (s_HistoryIndex s > 0)"

definition getUndoPreview :: "state \<Rightarrow> (IHistoryData option, state) outcome" where
  "getUndoPreview s =
     (case entry_at (s_HistoryEntries s) (s_HistoryIndex s - 1) of
        None \<Rightarrow> Threw TypeError s
      | Some e \<Rightarrow> Done (HistoryEntry_data e) s)"

definition undo :: "state \<Rightarrow> (unit, state) outcome" where
  "undo s =
     (case entry_at (s_HistoryEntries s) (s_HistoryIndex s - 1) of
        None \<Rightarrow> Threw TypeError s
      | Some historyEntry \<Rightarrow>
          (case HistoryEntry_undo historyEntry (world s) of
             Threw e w \<Rightarrow> Threw e (s\<lparr>world := w\<rparr>)
           | Done u w \<Rightarrow> Done () (s\<lparr>world := w, s_HistoryIndex := s_HistoryIndex s - 1\<rparr>)))"

definition canRedo :: "state \<Rightarrow> bool" where
  "canRedo s = (s_HistoryIndex s < int (length (s_HistoryEntries s)))"

definition getRedoPreview :: "state \<Rightarrow> (IHistoryData option, state) outcome" where
  "getRedoPreview s =
     (case entry_at (s_HistoryEntries s) (s_HistoryIndex s) of
        None \<Rightarrow> Threw TypeError s
      | Some e \<Rightarrow> Done (HistoryEntry_data e) s)"

definition redo :: "state \<Rightarrow> (unit, state) outcome" where
  "redo s =
     (case entry_at (s_HistoryEntries s) (s_HistoryIndex s) of
        None \<Rightarrow> Threw TypeError s
      | Some historyEntry \<Rightarrow>
          (case HistoryEntry_redo historyEntry (world s) of
             Threw e w \<Rightarrow> Threw e (s\<lparr>world := w\<rparr>)
           | Done u w \<Rightarrow> Done () (s\<lparr>world := w, s_HistoryIndex := s_HistoryIndex s + 1\<rparr>)))"

definition startTransaction :: "string option \<Rightarrow> state \<Rightarrow> bool \<times> state" where
  "startTransaction text s =
     (if s_Transaction s \<noteq> None then (False, s)
      else (True, s\<lparr>s_Transaction := Some (new_HistoryEntry text)\<rparr>))"

definition commitTransaction :: "state \<Rightarrow> (unit, state) outcome option" where
  "commitTransaction s =
     (case s_Transaction s of
        None \<Rightarrow> Some (Done () s)
      | Some open_entry \<Rightarrow>
          (case HistoryEntry_log open_entry (world s) of
             Threw e w \<Rightarrow> Some (Threw e (s\<lparr>world := w\<rparr>))
           | Done u w \<Rightarrow>
               (case s_CommitTransaction open_entry (s\<lparr>world := w\<rparr>) of
                  None \<Rightarrow> None
                | Some s' \<Rightarrow> Some (Done () (s'\<lparr>s_Transaction := None\<rparr>)))))"

text \<open>The module as it is loaded: index 0, no entries, no transaction.\<close>

definition initial :: "world \<Rightarrow> state" where
  "initial w = \<lparr>s_HistoryIndex = 0, s_HistoryEntries = [], s_Transaction = None, world = w\<rparr>"

section \<open>Callers\<close>

text \<open>
  The callback of the header's example, \<^verbatim>\<open>emit(() => console.log(o.name))\<close>: it prints
  something it reads from the heap it finds, and so records when it ran.
\<close>

definition print_callback :: "(heap \<Rightarrow> string) \<Rightarrow> callback" where
  "print_callback g w = Done () (w\<lparr>console := console w @ [Printed (g (heap w))]\<rparr>)"

text \<open>A callback is quiet when it returns and leaves the heap as it found it.\<close>

definition quiet :: "callback \<Rightarrow> bool" where
  "quiet f = (\<forall>w. \<exists>c. f w = Done () (w\<lparr>console := c\<rparr>))"

text \<open>A mutation call with its arguments, and a run of such calls that all return.\<close>

datatype call =
    UpdateValue jsval "string list" jsval "string option" "IHistoryData option" bool
  | UpdateMap jsval jsval jsval "string option" "IHistoryData option" bool

fun perform :: "call \<Rightarrow> state \<Rightarrow> (HistoryAction, state) outcome option" where
  "perform (UpdateValue target path value text data remove) s =
     updateValue target path value text data remove s"
| "perform (UpdateMap targetMap key value text data remove) s =
     updateMap targetMap key value text data remove s"

fun run_calls :: "call list \<Rightarrow> state \<Rightarrow> state option" where
  "run_calls [] s = Some s"
| "run_calls (c # cs) s =
     (case perform c s of
        Some (Done handle s') \<Rightarrow> run_calls cs s'
      | _ \<Rightarrow> None)"

fun undo_times :: "nat \<Rightarrow> state \<Rightarrow> (unit, state) outcome" where
  "undo_times 0 s = Done () s"
| "undo_times (Suc n) s =
     (case undo s of
        Threw e s' \<Rightarrow> Threw e s'
      | Done u s' \<Rightarrow> undo_times n s')"

section \<open>Slots: what a closure reads and what it writes\<close>

text \<open>
  A slot is an own property of an object, an element position of an array or an entry
  of a \<^verbatim>\<open>Map\<close>. The closure of an action finds the slot it writes by walking its path
  from the target, which reads one slot per segment before the last, and the closure
  of \<^verbatim>\<open>updateMap\<close> reads the four properties that could hide the methods it calls.
  These functions name both; they are about the accessor above and take nothing from
  beyond it.
\<close>

datatype loc = PropLoc addr string | IndexLoc addr nat | EntryLoc addr jsval

datatype shape = PlainShape | MapShape | ArrShape nat

fun shape_of :: "jsobj \<Rightarrow> shape" where
  "shape_of (Record ps) = PlainShape"
| "shape_of (MapObj ps m) = MapShape"
| "shape_of (Arr ps es) = ArrShape (length es)"

text \<open>The own slot that the read of a key looks at; \<^verbatim>\<open>length\<close> of an array is no slot.\<close>

fun key_loc :: "shape \<Rightarrow> addr \<Rightarrow> string \<Rightarrow> loc list" where
  "key_loc (ArrShape n) a k =
     (case index_of k of
        Some i \<Rightarrow> [IndexLoc a i]
      | None \<Rightarrow> if k = ''length'' then [] else [PropLoc a k])"
| "key_loc PlainShape a k = [PropLoc a k]"
| "key_loc MapShape a k = [PropLoc a k]"

fun resolve :: "heap \<Rightarrow> jsval \<Rightarrow> string list \<Rightarrow> (jsval \<times> string) option" where
  "resolve h obj [] = None"
| "resolve h obj [k] = Some (obj, k)"
| "resolve h obj (k # ks) =
     (case get_prop h obj k of
        Inl e \<Rightarrow> None
      | Inr obj' \<Rightarrow> resolve h obj' ks)"

fun links :: "heap \<Rightarrow> jsval \<Rightarrow> string list \<Rightarrow> loc list" where
  "links h obj [] = []"
| "links h obj [k] = []"
| "links h obj (k # ks) =
     (case obj of Ref a \<Rightarrow> key_loc (shape_of (h a)) a k | _ \<Rightarrow> [])
     @ (case get_prop h obj k of
          Inl e \<Rightarrow> []
        | Inr obj' \<Rightarrow> links h obj' ks)"

text \<open>
  The slot that the last segment of a path denotes when writing it changes that slot
  and nothing else: a property of a plain object or of an array, other than
  \<^verbatim>\<open>hasOwnProperty\<close>, \<^verbatim>\<open>__proto__\<close> and the length of an array, or an element position
  below the length of an array. Assigning \<^verbatim>\<open>hasOwnProperty\<close> hides the method that the
  accessor calls, assigning an element at or beyond the length changes the length, and
  the properties of a \<^verbatim>\<open>Map\<close> are left aside.
\<close>

definition write_loc :: "heap \<Rightarrow> addr \<Rightarrow> string \<Rightarrow> loc option" where
  "write_loc h a k =
     (if k = ''hasOwnProperty'' \<or> k = ''__proto__'' then None
      else
        (case h a of
           Record ps \<Rightarrow> Some (PropLoc a k)
         | MapObj ps m \<Rightarrow> None
         | Arr ps es \<Rightarrow>
             (case index_of k of
                Some i \<Rightarrow> if i < length es then Some (IndexLoc a i) else None
              | None \<Rightarrow> if k = ''length'' then None else Some (PropLoc a k))))"

text \<open>
  The slot a closure writes: for \<^verbatim>\<open>updateValue\<close> the slot at the end of the path, for
  \<^verbatim>\<open>updateMap\<close> the entry under the key, in a \<^verbatim>\<open>Map\<close> none of whose four methods is
  hidden by an own property.
\<close>

fun closure_loc :: "heap \<Rightarrow> closure \<Rightarrow> loc option" where
  "closure_loc h (ValueClosure target path) =
     (case resolve h target path of
        Some (Ref a, k) \<Rightarrow> write_loc h a k
      | _ \<Rightarrow> None)"
| "closure_loc h (MapClosure targetMap key) =
     (case targetMap of
        Ref a \<Rightarrow>
          (case h a of
             MapObj ps m \<Rightarrow>
               if ps ''has'' = None \<and> ps ''get'' = None \<and> ps ''set'' = None \<and> ps ''delete'' = None
               then Some (EntryLoc a key) else None
           | _ \<Rightarrow> None)
      | _ \<Rightarrow> None)"

fun closure_links :: "heap \<Rightarrow> closure \<Rightarrow> loc list" where
  "closure_links h (ValueClosure target path) = links h target path"
| "closure_links h (MapClosure targetMap key) =
     (case targetMap of
        Ref a \<Rightarrow> [PropLoc a ''has'', PropLoc a ''get'', PropLoc a ''set'', PropLoc a ''delete'']
      | _ \<Rightarrow> [])"


fun content :: "heap \<Rightarrow> loc \<Rightarrow> jsval option" where
  "content h (PropLoc a k) = props_of (h a) k"
| "content h (IndexLoc a i) =
     (case h a of Arr ps es \<Rightarrow> if i < length es then es ! i else None | _ \<Rightarrow> None)"
| "content h (EntryLoc a key) = (case h a of MapObj ps m \<Rightarrow> m key | _ \<Rightarrow> None)"

fun put :: "loc \<Rightarrow> jsval option \<Rightarrow> heap \<Rightarrow> heap" where
  "put (PropLoc a k) x h =
     h(a := (case h a of
               Record ps \<Rightarrow> Record (ps(k := x))
             | MapObj ps m \<Rightarrow> MapObj (ps(k := x)) m
             | Arr ps es \<Rightarrow> Arr (ps(k := x)) es))"
| "put (IndexLoc a i) x h =
     (case h a of
        Arr ps es \<Rightarrow> if i < length es then h(a := Arr ps (es[i := x])) else h
      | _ \<Rightarrow> h)"
| "put (EntryLoc a key) x h =
     (case h a of MapObj ps m \<Rightarrow> h(a := MapObj ps (m(key := x))) | _ \<Rightarrow> h)"

text \<open>A slot fits a heap when its object is of the slot's kind and long enough.\<close>

fun fits :: "heap \<Rightarrow> loc \<Rightarrow> bool" where
  "fits h (PropLoc a k) = True"
| "fits h (IndexLoc a i) = (case shape_of (h a) of ArrShape n \<Rightarrow> i < n | _ \<Rightarrow> False)"
| "fits h (EntryLoc a key) = (shape_of (h a) = MapShape)"

text \<open>The object of a property or element slot has no own property that hides \<^verbatim>\<open>hasOwnProperty\<close>.\<close>

fun has_callable :: "heap \<Rightarrow> loc \<Rightarrow> bool" where
  "has_callable h (PropLoc a k) = (props_of (h a) ''hasOwnProperty'' = None)"
| "has_callable h (IndexLoc a i) = (props_of (h a) ''hasOwnProperty'' = None)"
| "has_callable h (EntryLoc a key) = True"

definition slot_opt :: "IValueInfo \<Rightarrow> jsval option" where
  "slot_opt v = (if exists v then Some (val v) else None)"



text \<open>The invariant of the store: the cursor lies within the entries.\<close>

definition consistent :: "state \<Rightarrow> bool" where
  "consistent s = (0 \<le> s_HistoryIndex s \<and> s_HistoryIndex s \<le> int (length (s_HistoryEntries s)))"



text \<open>
  Every action of the list has a slot to write, and none writes a slot that an action of
  the list reads.
\<close>

definition independent :: "heap \<Rightarrow> HistoryAction list \<Rightarrow> bool" where
  "independent h as =
     (\<forall>a \<in> set as. \<forall>b \<in> set as.
        case closure_loc h (m_Apply a) of
          None \<Rightarrow> False
        | Some l \<Rightarrow> l \<notin> set (closure_links h (m_Apply b)))"

text \<open>
  The slots that the actions write, and a heap that differs from \<open>h0\<close> in those slots
  at most.
\<close>

definition written :: "heap \<Rightarrow> HistoryAction list \<Rightarrow> loc set" where
  "written h0 as = {l. \<exists>a \<in> set as. closure_loc h0 (m_Apply a) = Some l}"

definition agrees :: "loc set \<Rightarrow> heap \<Rightarrow> heap \<Rightarrow> bool" where
  "agrees W h h0 =
     ((\<forall>a. shape_of (h a) = shape_of (h0 a)) \<and> (\<forall>l. l \<notin> W \<longrightarrow> content h l = content h0 l))"

text \<open>What a pass over the actions leaves in each slot, given what was there.\<close>

fun planned :: "HistoryValue \<Rightarrow> heap \<Rightarrow> HistoryAction list \<Rightarrow> (loc \<Rightarrow> jsval option) \<Rightarrow> (loc \<Rightarrow> jsval option)" where
  "planned v h0 [] f = f"
| "planned v h0 (a # rest) f =
     planned v h0 rest
       (case closure_loc h0 (m_Apply a) of
          None \<Rightarrow> f
        | Some l \<Rightarrow> f(l := slot_opt (chosen v a)))"

section \<open>Concrete states\<close>

text \<open>
  The target \<^verbatim>\<open>{name: 'A'}\<close> at address 0 and the \<^verbatim>\<open>Map\<close> \<^verbatim>\<open>{1: 'x'}\<close> at address 1 of a
  heap of empty objects.
\<close>

definition ex_heap :: heap where
  "ex_heap =
     (\<lambda>a. Record Map.empty)
       (0 := Record [''name'' \<mapsto> Str ''A''], 1 := MapObj Map.empty [Num 1 \<mapsto> Str ''x''])"

definition ex_world :: world where
  "ex_world = \<lparr>heap = ex_heap, console = []\<rparr>"

definition ex_data :: IHistoryData where
  "ex_data = \<lparr>type = Upd, entity_number = 7, other_entity = None\<rparr>"

text \<open>The action that renames the target, and the entry that such a rename commits.\<close>

definition ex_action :: "string \<Rightarrow> string \<Rightarrow> IHistoryData option \<Rightarrow> HistoryAction" where
  "ex_action old new data =
     new_HistoryAction \<lparr>val = Str old, exists = True\<rparr> \<lparr>val = Str new, exists = True\<rparr> data
       (ValueClosure (Ref 0) [''name''])"

definition ex_rename :: "string \<Rightarrow> string \<Rightarrow> HistoryEntry" where
  "ex_rename old new = push (ex_action old new (Some ex_data)) (new_HistoryEntry (Some ''rename''))"

text \<open>The heap in which the target has been given another name.\<close>

definition ex_named :: "string \<Rightarrow> heap" where
  "ex_named n = ex_heap(0 := Record [''name'' \<mapsto> Str n])"

text \<open>What \<^verbatim>\<open>() => console.log(o.name)\<close> prints.\<close>

definition ex_name :: "heap \<Rightarrow> string" where
  "ex_name h = (case get_prop h (Ref 0) ''name'' of Inr (Str n) \<Rightarrow> n | _ \<Rightarrow> ''?'')"

text \<open>
  The entry of a transaction that renames the target twice, from \<^verbatim>\<open>'A'\<close> to \<^verbatim>\<open>'B'\<close> and
  from \<^verbatim>\<open>'B'\<close> to \<^verbatim>\<open>'C'\<close>.
\<close>

definition ex_twice :: HistoryEntry where
  "ex_twice =
     push (ex_action ''B'' ''C'' (Some ex_data))
       (push (ex_action ''A'' ''B'' (Some ex_data)) (new_HistoryEntry (Some ''batch'')))"

text \<open>The state that the rename without data leaves when it throws.\<close>

definition ex_failed :: state where
  "ex_failed = (initial ex_world)\<lparr>world := \<lparr>heap = ex_named ''B'', console = []\<rparr>\<rparr>"

text \<open>One committed entry, undone: the cursor is back at 0 and the entry can be redone.\<close>

definition ex_undone :: state where
  "ex_undone =
     \<lparr>s_HistoryIndex = 0, s_HistoryEntries = [ex_rename ''A'' ''B''], s_Transaction = None,
      world = ex_world\<rparr>"

text \<open>A transaction has been opened and nothing else has happened.\<close>

definition ex_open :: state where
  "ex_open = (initial ex_world)\<lparr>s_Transaction := Some (new_HistoryEntry (Some ''batch''))\<rparr>"

text \<open>Two calls with no transaction open: a rename, and the removal of key 1 of the map.\<close>

definition ex_calls :: "call list" where
  "ex_calls =
     [UpdateValue (Ref 0) [''name''] (Str ''B'') (Some ''rename'') (Some ex_data) False,
      UpdateMap (Ref 1) (Num 1) Undefined (Some ''clear'') (Some ex_data) True]"

definition ex_clear :: HistoryEntry where
  "ex_clear =
     push (new_HistoryAction \<lparr>val = Str ''x'', exists = True\<rparr> \<lparr>val = Undefined, exists = False\<rparr>
             (Some ex_data) (MapClosure (Ref 1) (Num 1)))
          (new_HistoryEntry (Some ''clear''))"

definition ex_called :: state where
  "ex_called =
     \<lparr>s_HistoryIndex = 2, s_HistoryEntries = [ex_rename ''A'' ''B'', ex_clear],
      s_Transaction = None,
      world = \<lparr>heap = ex_heap(0 := Record [''name'' \<mapsto> Str ''B''], 1 := MapObj Map.empty Map.empty),
               console = [EntryLine [7] Plain ''rename'', EntryLine [7] Plain ''clear'']\<rparr>\<rparr>"

text \<open>
  A target that refers to itself, \<^verbatim>\<open>t.a === t\<close>, and an empty object at address 1. The
  call replaces \<^verbatim>\<open>t.a.a\<close>, which is \<^verbatim>\<open>t.a\<close>, by a reference to the empty object.
\<close>

definition cyc_heap :: heap where
  "cyc_heap = (\<lambda>a. Record Map.empty)(0 := Record [''a'' \<mapsto> Ref 0])"

definition cyc_state :: state where
  "cyc_state = initial \<lparr>heap = cyc_heap, console = []\<rparr>"

definition cyc_call :: call where
  "cyc_call = UpdateValue (Ref 0) [''a'', ''a''] (Ref 1) (Some ''swap'') (Some ex_data) False"

definition cyc_entry :: HistoryEntry where
  "cyc_entry =
     push (new_HistoryAction \<lparr>val = Ref 0, exists = True\<rparr> \<lparr>val = Ref 1, exists = True\<rparr>
             (Some ex_data) (ValueClosure (Ref 0) [''a'', ''a'']))
          (new_HistoryEntry (Some ''swap''))"

definition cyc_called :: state where
  "cyc_called =
     \<lparr>s_HistoryIndex = 1, s_HistoryEntries = [cyc_entry], s_Transaction = None,
      world = \<lparr>heap = cyc_heap(0 := Record [''a'' \<mapsto> Ref 1]),
               console = [EntryLine [7] Plain ''swap'']\<rparr>\<rparr>"

definition cyc_undone :: state where
  "cyc_undone =
     \<lparr>s_HistoryIndex = 0, s_HistoryEntries = [cyc_entry], s_Transaction = None,
      world = \<lparr>heap = cyc_heap(0 := Record [''a'' \<mapsto> Ref 1], 1 := Record [''a'' \<mapsto> Ref 0]),
               console = [EntryLine [7] Plain ''swap'', EntryLine [7] Undo ''swap'']\<rparr>\<rparr>"

text \<open>
  The entry of the transaction \<^verbatim>\<open>updateValue(t, ['a'], b); updateValue(t, ['a', 'x'], 1)\<close>
  on \<^verbatim>\<open>t = {a: c, keep: c}\<close>, \<^verbatim>\<open>b = {x: 0}\<close>, \<^verbatim>\<open>c = {x: 7}\<close> at the addresses 0, 1 and 2:
  the path of the second action reads the slot that the first one writes, and the target
  keeps a second reference to \<^verbatim>\<open>c\<close>.
\<close>

definition dep_heap :: "jsval \<Rightarrow> int \<Rightarrow> int \<Rightarrow> heap" where
  "dep_heap a b c =
     (\<lambda>a. Record Map.empty)
       (0 := Record [''a'' \<mapsto> a, ''keep'' \<mapsto> Ref 2], 1 := Record [''x'' \<mapsto> Num b],
        2 := Record [''x'' \<mapsto> Num c])"

definition dep_entry :: HistoryEntry where
  "dep_entry =
     push (new_HistoryAction \<lparr>val = Num 0, exists = True\<rparr> \<lparr>val = Num 1, exists = True\<rparr>
             (Some ex_data) (ValueClosure (Ref 0) [''a'', ''x'']))
       (push (new_HistoryAction \<lparr>val = Ref 2, exists = True\<rparr> \<lparr>val = Ref 1, exists = True\<rparr>
                (Some ex_data) (ValueClosure (Ref 0) [''a'']))
          (new_HistoryEntry (Some ''batch'')))"

text \<open>
  An array at address 0. The call \<^verbatim>\<open>updateValue(arr, ['3'], 4, 'grow', data)\<close> on
  \<^verbatim>\<open>arr = [1, 2, 3]\<close> assigns the element after the last one, which makes the array longer.
\<close>

definition arr_heap :: "jsval option list \<Rightarrow> heap" where
  "arr_heap es = (\<lambda>a. Record Map.empty)(0 := Arr Map.empty es)"

definition arr_state :: state where
  "arr_state = initial \<lparr>heap = arr_heap [Some (Num 1), Some (Num 2), Some (Num 3)], console = []\<rparr>"

definition arr_call :: call where
  "arr_call = UpdateValue (Ref 0) [''3''] (Num 4) (Some ''grow'') (Some ex_data) False"

definition arr_entry :: HistoryEntry where
  "arr_entry =
     push (new_HistoryAction \<lparr>val = Undefined, exists = False\<rparr> \<lparr>val = Num 4, exists = True\<rparr>
             (Some ex_data) (ValueClosure (Ref 0) [''3'']))
          (new_HistoryEntry (Some ''grow''))"

definition arr_called :: state where
  "arr_called =
     \<lparr>s_HistoryIndex = 1, s_HistoryEntries = [arr_entry], s_Transaction = None,
      world = \<lparr>heap = arr_heap [Some (Num 1), Some (Num 2), Some (Num 3), Some (Num 4)],
               console = [EntryLine [7] Plain ''grow'']\<rparr>\<rparr>"

definition arr_undone :: state where
  "arr_undone =
     \<lparr>s_HistoryIndex = 0, s_HistoryEntries = [arr_entry], s_Transaction = None,
      world = \<lparr>heap = arr_heap [Some (Num 1), Some (Num 2), Some (Num 3), None],
               console = [EntryLine [7] Plain ''grow'', EntryLine [7] Undo ''grow'']\<rparr>\<rparr>"

text \<open>
  The entry whose action holds, for the path \<^verbatim>\<open>['5']\<close> of the array, the old value \<^verbatim>\<open>'y'\<close>
  and the removal as the new one.
\<close>

definition arr_trim :: HistoryEntry where
  "arr_trim =
     push (new_HistoryAction \<lparr>val = Str ''y'', exists = True\<rparr> \<lparr>val = Undefined, exists = False\<rparr>
             (Some ex_data) (ValueClosure (Ref 0) [''5'']))
          (new_HistoryEntry (Some ''trim''))"

text \<open>
  An empty object at address 0, and the call \<^verbatim>\<open>updateValue(t, ['hasOwnProperty'], 1, 'hide', data)\<close>,
  which gives the target a property that hides the method of that name.
\<close>

definition hide_heap :: heap where
  "hide_heap = (\<lambda>a. Record Map.empty)"

definition hide_state :: state where
  "hide_state = initial \<lparr>heap = hide_heap, console = []\<rparr>"

definition hide_call :: call where
  "hide_call = UpdateValue (Ref 0) [''hasOwnProperty''] (Num 1) (Some ''hide'') (Some ex_data) False"

definition hide_entry :: HistoryEntry where
  "hide_entry =
     push (new_HistoryAction \<lparr>val = Undefined, exists = False\<rparr> \<lparr>val = Num 1, exists = True\<rparr>
             (Some ex_data) (ValueClosure (Ref 0) [''hasOwnProperty'']))
          (new_HistoryEntry (Some ''hide''))"

definition hide_called :: state where
  "hide_called =
     \<lparr>s_HistoryIndex = 1, s_HistoryEntries = [hide_entry], s_Transaction = None,
      world = \<lparr>heap = hide_heap(0 := Record [''hasOwnProperty'' \<mapsto> Num 1]),
               console = [EntryLine [7] Plain ''hide'']\<rparr>\<rparr>"

section \<open>The history store\<close>

lemma pop_entries_take: "0 \<le> i \<Longrightarrow> pop_entries es i = Some (take (nat i) es)"
proof (induction es rule: rev_induct)
  case Nil
  then show ?case by (subst pop_entries.simps) simp
next
  case (snoc x xs)
  show ?case
  proof (cases "int (length (xs @ [x])) > i")
    case True
    then have "pop_entries (xs @ [x]) i = pop_entries xs i"
      by (subst pop_entries.simps) simp
    with snoc True show ?thesis by simp
  next
    case False
    then show ?thesis by (subst pop_entries.simps) simp
  qed
qed

lemma s_CommitTransaction_eq:
  "0 \<le> s_HistoryIndex s \<Longrightarrow>
   s_CommitTransaction e s =
     Some (s\<lparr>s_HistoryEntries := take (nat (s_HistoryIndex s)) (s_HistoryEntries s) @ [e],
             s_HistoryIndex := s_HistoryIndex s + 1\<rparr>)"
  by (simp add: s_CommitTransaction_def pop_entries_take)

text \<open>
  The cursor lies within the entries when the module is loaded, and every operation
  keeps it there, whether it returns or throws.
\<close>

lemma consistent_initial: "consistent (initial w)"
  by (simp add: consistent_def initial_def)

lemma consistent_commit:
  "consistent s \<Longrightarrow> s_CommitTransaction e s = Some s' \<Longrightarrow> consistent s'"
  by (auto simp: consistent_def s_CommitTransaction_eq min_def)

lemma consistent_route:
  "consistent s \<Longrightarrow> route_action text act s = Some r \<Longrightarrow> consistent (state_of r)"
  by (auto simp: route_action_def Let_def consistent_def s_CommitTransaction_eq min_def
      split: option.splits outcome.splits)

lemma consistent_update:
  "consistent s \<Longrightarrow> perform c s = Some r \<Longrightarrow> consistent (state_of r)"
  by (cases c)
     (auto simp: updateValue_def updateMap_def Let_def split: sum.splits dest: consistent_route)

lemma consistent_undo_redo:
  "consistent s \<Longrightarrow> consistent (state_of (undo s)) \<and> consistent (state_of (redo s))"
  by (auto simp: undo_def redo_def consistent_def entry_at_def split: option.splits outcome.splits)

lemma consistent_transaction:
  "consistent s \<Longrightarrow> consistent (snd (startTransaction text s))"
  "consistent s \<Longrightarrow> commitTransaction s = Some r \<Longrightarrow> consistent (state_of r)"
  by (auto simp: startTransaction_def commitTransaction_def consistent_def s_CommitTransaction_eq
      min_def split: option.splits outcome.splits)

text \<open>
  C3. In a state of the history (the cursor is never negative) where \<^verbatim>\<open>canRedo()\<close>
  holds, committing an entry returns, keeps exactly the entries below the cursor,
  appends the new entry after them and moves the cursor up by one; nothing can be
  redone afterwards. The open transaction and the world are not touched.
\<close>

theorem commit_discards_redo:
  "0 \<le> s_HistoryIndex s \<Longrightarrow> canRedo s \<Longrightarrow>
   \<exists>s'. s_CommitTransaction e s = Some s'
      \<and> s_HistoryEntries s' = take (nat (s_HistoryIndex s)) (s_HistoryEntries s) @ [e]
      \<and> s_HistoryIndex s' = s_HistoryIndex s + 1
      \<and> s_Transaction s' = s_Transaction s
      \<and> world s' = world s
      \<and> \<not> canRedo s'"
  by (simp add: s_CommitTransaction_eq canRedo_def)

theorem commit_discards_redo_witness:
  "0 \<le> s_HistoryIndex ex_undone \<and> canRedo ex_undone
   \<and> (\<exists>s'. s_CommitTransaction (ex_rename ''A'' ''C'') ex_undone = Some s'
         \<and> s_HistoryEntries s' = [ex_rename ''A'' ''C'']
         \<and> s_HistoryIndex s' = 1
         \<and> \<not> canRedo s')"
proof -
  have idx: "0 \<le> s_HistoryIndex ex_undone" by (simp add: ex_undone_def)
  have redo: "canRedo ex_undone" by (simp add: canRedo_def ex_undone_def)
  from commit_discards_redo [OF idx redo, of "ex_rename ''A'' ''C''"]
  show ?thesis using idx redo by (auto simp: ex_undone_def)
qed

text \<open>
  C4. With a transaction open, \<^verbatim>\<open>startTransaction\<close> returns false and the state it
  leaves is the state it found. With no transaction open, \<^verbatim>\<open>commitTransaction\<close> returns
  and the state it leaves is the state it found.
\<close>

theorem transaction_guards:
  "(s_Transaction s \<noteq> None \<longrightarrow> startTransaction text s = (False, s))
   \<and> (s_Transaction s = None \<longrightarrow> commitTransaction s = Some (Done () s))"
  by (simp add: startTransaction_def commitTransaction_def)

theorem transaction_guards_witness:
  "s_Transaction ex_open \<noteq> None
   \<and> startTransaction (Some ''again'') ex_open = (False, ex_open)
   \<and> s_Transaction ex_undone = None
   \<and> commitTransaction ex_undone = Some (Done () ex_undone)"
  using transaction_guards [of ex_open "Some ''again''"] transaction_guards [of ex_undone]
  by (simp add: ex_open_def ex_undone_def)

text \<open>
  C5. Where \<^verbatim>\<open>canUndo()\<close> is false, \<^verbatim>\<open>undo()\<close> and \<^verbatim>\<open>getUndoPreview()\<close> throw, and where
  \<^verbatim>\<open>canRedo()\<close> is false, \<^verbatim>\<open>redo()\<close> and \<^verbatim>\<open>getRedoPreview()\<close> throw: the array read is
  out of range and a member of \<^verbatim>\<open>undefined\<close> is accessed. The state after the throw is
  the state before the call, cursor and entries included.
\<close>

theorem guards_throw:
  "(\<not> canUndo s \<longrightarrow> undo s = Threw TypeError s \<and> getUndoPreview s = Threw TypeError s)
   \<and> (\<not> canRedo s \<longrightarrow> redo s = Threw TypeError s \<and> getRedoPreview s = Threw TypeError s)"
  by (simp add: canUndo_def canRedo_def undo_def redo_def getUndoPreview_def
      getRedoPreview_def entry_at_def)

theorem guards_throw_witness:
  "\<not> canUndo ex_undone
   \<and> undo ex_undone = Threw TypeError ex_undone
   \<and> getUndoPreview ex_undone = Threw TypeError ex_undone
   \<and> \<not> canRedo (initial ex_world)
   \<and> redo (initial ex_world) = Threw TypeError (initial ex_world)
   \<and> getRedoPreview (initial ex_world) = Threw TypeError (initial ex_world)"
  using guards_throw [of ex_undone] guards_throw [of "initial ex_world"]
  by (simp add: canUndo_def canRedo_def ex_undone_def initial_def)

section \<open>Slots\<close>

lemma get_prop_agree:
  assumes "shape_of (h a) = shape_of (h0 a)"
    and "\<And>l. l \<in> set (key_loc (shape_of (h0 a)) a k) \<Longrightarrow> content h l = content h0 l"
  shows "get_prop h (Ref a) k = get_prop h0 (Ref a) k"
proof (cases "h0 a")
  case (Record ps0)
  with assms(1) obtain ps where h: "h a = Record ps" by (cases "h a") auto
  from assms(2) [of "PropLoc a k"] Record h have "ps k = ps0 k" by simp
  then show ?thesis using Record h by (simp add: get_prop_def own_or_inherited_def)
next
  case (MapObj ps0 m0)
  with assms(1) obtain ps m where h: "h a = MapObj ps m" by (cases "h a") auto
  from assms(2) [of "PropLoc a k"] MapObj h have "ps k = ps0 k" by simp
  then show ?thesis using MapObj h by (simp add: get_prop_def own_or_inherited_def)
next
  case (Arr ps0 es0)
  with assms(1) obtain ps es where h: "h a = Arr ps es" and len: "length es = length es0"
    by (cases "h a") auto
  show ?thesis
  proof (cases "index_of k")
    case (Some i)
    from assms(2) [of "IndexLoc a i"] Arr h Some len
    have "i < length es0 \<Longrightarrow> es ! i = es0 ! i" by simp
    then show ?thesis using Arr h Some len by (simp add: get_prop_def)
  next
    case None
    show ?thesis
    proof (cases "k = ''length''")
      case True
      then show ?thesis using Arr h None len by (simp add: get_prop_def)
    next
      case False
      from assms(2) [of "PropLoc a k"] Arr h None False have "ps k = ps0 k" by simp
      then show ?thesis using Arr h None False by (simp add: get_prop_def own_or_inherited_def)
    qed
  qed
qed

lemma get_prop_prim: "(\<And>a. obj \<noteq> Ref a) \<Longrightarrow> get_prop h obj k = get_prop h0 obj k"
  by (cases obj) (auto simp: get_prop_def)

lemma walk_agree:
  "(\<And>a. shape_of (h a) = shape_of (h0 a)) \<Longrightarrow>
   (\<And>l. l \<in> set (links h0 obj path) \<Longrightarrow> content h l = content h0 l) \<Longrightarrow>
   resolve h obj path = resolve h0 obj path \<and> links h obj path = links h0 obj path"
proof (induction h0 obj path rule: links.induct)
  case (1 h0 obj)
  then show ?case by simp
next
  case (2 h0 obj k)
  then show ?case by simp
next
  case (3 h0 obj k k' ks)
  have g: "get_prop h obj k = get_prop h0 obj k"
  proof (cases obj)
    case (Ref a)
    show ?thesis unfolding Ref
    proof (rule get_prop_agree)
      show "shape_of (h a) = shape_of (h0 a)" by (rule "3.prems"(1))
      show "content h l = content h0 l" if "l \<in> set (key_loc (shape_of (h0 a)) a k)" for l
        using that Ref by (intro "3.prems"(2)) simp
    qed
  qed (simp_all add: get_prop_def)
  have s: "(case obj of Ref a \<Rightarrow> key_loc (shape_of (h a)) a k | _ \<Rightarrow> [])
         = (case obj of Ref a \<Rightarrow> key_loc (shape_of (h0 a)) a k | _ \<Rightarrow> [])"
    using "3.prems"(1) by (cases obj) simp_all
  show ?case
  proof (cases "get_prop h0 obj k")
    case (Inl e)
    with g s show ?thesis by simp
  next
    case (Inr obj')
    have "resolve h obj' (k' # ks) = resolve h0 obj' (k' # ks)
        \<and> links h obj' (k' # ks) = links h0 obj' (k' # ks)"
    proof (rule "3.IH" [OF Inr])
      show "shape_of (h a) = shape_of (h0 a)" for a by (rule "3.prems"(1))
      show "content h l = content h0 l" if "l \<in> set (links h0 obj' (k' # ks))" for l
        using that Inr by (intro "3.prems"(2)) simp
    qed
    with g s Inr show ?thesis by simp
  qed
qed

lemma shape_put [simp]: "shape_of (put l x h a) = shape_of (h a)"
proof (cases l)
  case (PropLoc b k)
  then show ?thesis by (cases "h b") auto
next
  case (IndexLoc b i)
  then show ?thesis by (cases "h b") auto
next
  case (EntryLoc b key)
  then show ?thesis by (cases "h b") auto
qed

lemma fits_put [simp]: "fits (put l x h) l' = fits h l'"
  by (cases l') simp_all

lemma content_put: "fits h l \<Longrightarrow> content (put l x h) l' = (if l' = l then x else content h l')"
proof (cases l)
  case (PropLoc b k)
  then show ?thesis by (cases l'; cases "h b") auto
next
  case (IndexLoc b i)
  assume "fits h l"
  with IndexLoc show ?thesis by (cases l'; cases "h b") (auto simp: nth_list_update)
next
  case (EntryLoc b key)
  assume "fits h l"
  with EntryLoc show ?thesis by (cases l'; cases "h b") auto
qed

lemma heap_eqI:
  assumes "\<And>a. shape_of (h a) = shape_of (h' a)" and "\<And>l. content h l = content h' l"
  shows "h = h'"
proof
  fix a
  have p: "props_of (h a) = props_of (h' a)"
    using assms(2) [of "PropLoc a k" for k] by auto
  show "h a = h' a"
  proof (cases "h a")
    case (Record ps)
    with assms(1) [of a] obtain ps' where r': "h' a = Record ps'" by (cases "h' a") auto
    then show ?thesis using Record p by simp
  next
    case (MapObj ps m)
    with assms(1) [of a] obtain ps' m' where r': "h' a = MapObj ps' m'" by (cases "h' a") auto
    have "m k = m' k" for k using assms(2) [of "EntryLoc a k"] MapObj r' by simp
    then have "m = m'" by auto
    then show ?thesis using MapObj r' p by simp
  next
    case (Arr ps es)
    with assms(1) [of a] obtain ps' es' where r': "h' a = Arr ps' es'"
      and len: "length es = length es'" by (cases "h' a") auto
    have "es ! i = es' ! i" if "i < length es" for i
      using assms(2) [of "IndexLoc a i"] Arr r' len that by simp
    with len have "es = es'" by (simp add: list_eq_iff_nth_eq)
    then show ?thesis using Arr r' p by simp
  qed
qed

lemma put_unfit: "\<not> fits h l \<Longrightarrow> put l x h = h"
proof (cases l)
  case (IndexLoc b i)
  assume "\<not> fits h l"
  with IndexLoc show ?thesis by (cases "h b") auto
next
  case (EntryLoc b key)
  assume "\<not> fits h l"
  with EntryLoc show ?thesis by (cases "h b") auto
qed simp


lemma put_content: "put l (content h l) h = h"
proof (cases "fits h l")
  case True
  show ?thesis by (rule heap_eqI) (simp_all add: content_put True)
next
  case False
  then show ?thesis by (simp add: put_unfit)
qed

lemma put_absent: "content h l = None \<Longrightarrow> put l None h = h"
  using put_content [of l h] by simp

lemma s_GetValue_resolve:
  "resolve h obj path = Some (obj', k) \<Longrightarrow> s_GetValue h obj path = s_GetValue h obj' [k]"
  by (induction h obj path rule: resolve.induct) (auto split: sum.splits)

lemma s_SetValue_resolve:
  "resolve h obj path = Some (obj', k) \<Longrightarrow> s_SetValue h obj path v = s_SetValue h obj' [k] v"
  by (induction h obj path rule: resolve.induct) (auto split: sum.splits)

lemma s_DeleteValue_resolve:
  "resolve h obj path = Some (obj', k) \<Longrightarrow> s_DeleteValue h obj path = s_DeleteValue h obj' [k]"
  by (induction h obj path rule: resolve.induct) (auto split: sum.splits)

lemma s_GetValue_resolves: "s_GetValue h obj path = Inr r \<Longrightarrow> resolve h obj path \<noteq> None"
  by (induction h obj path rule: resolve.induct) (auto split: sum.splits)


lemma write_loc_fits: "write_loc h a k = Some l \<Longrightarrow> fits h l"
  by (cases "h a") (auto simp: write_loc_def split: if_splits option.splits)

lemma write_loc_set:
  "write_loc h a k = Some l \<Longrightarrow> set_prop h (Ref a) k x = Inr (put l (Some x) h)"
  by (cases "h a") (auto simp: write_loc_def set_prop_def split: if_splits option.splits)

lemma write_loc_delete:
  "write_loc h a k = Some l \<Longrightarrow> delete_prop h (Ref a) k = Inr (put l None h)"
  by (cases "h a") (auto simp: write_loc_def delete_prop_def split: if_splits option.splits)

lemma write_loc_has:
  "write_loc h a k = Some l \<Longrightarrow>
   has_own h (Ref a) k =
     (if props_of (h a) ''hasOwnProperty'' \<noteq> None then Inl TypeError
      else Inr (content h l \<noteq> None))"
  by (cases "h a") (auto simp: write_loc_def has_own_def split: if_splits option.splits)

lemma write_loc_get:
  "write_loc h a k = Some l \<Longrightarrow> content h l = Some v \<Longrightarrow> get_prop h (Ref a) k = Inr v"
  by (cases "h a")
     (auto simp: write_loc_def get_prop_def own_or_inherited_def split: if_splits option.splits)

lemma write_loc_callable:
  "write_loc h a k = Some l \<Longrightarrow> has_callable h l = (props_of (h a) ''hasOwnProperty'' = None)"
  by (cases "h a") (auto simp: write_loc_def split: if_splits option.splits)

lemma s_GetValue_last:
  assumes "write_loc h a k = Some l"
  shows "s_GetValue h (Ref a) [k] =
     (if has_callable h l
      then Inr (case content h l of
                  Some v \<Rightarrow> \<lparr>val = v, exists = True\<rparr>
                | None \<Rightarrow> \<lparr>val = Undefined, exists = False\<rparr>)
      else Inl TypeError)"
proof (cases "content h l")
  case None
  then show ?thesis
    by (simp add: write_loc_has [OF assms] write_loc_callable [OF assms])
next
  case (Some v)
  then show ?thesis
    by (simp add: write_loc_has [OF assms] write_loc_callable [OF assms] write_loc_get [OF assms Some])
qed

lemma value_closure_loc:
  "closure_loc h (ValueClosure target path) = Some l \<Longrightarrow>
   \<exists>a k. resolve h target path = Some (Ref a, k) \<and> write_loc h a k = Some l"
  by (auto split: option.splits jsval.splits)

lemma map_closure_loc:
  "closure_loc h (MapClosure targetMap key) = Some l \<Longrightarrow>
   \<exists>a ps m. targetMap = Ref a \<and> h a = MapObj ps m \<and> l = EntryLoc a key
      \<and> ps ''has'' = None \<and> ps ''get'' = None \<and> ps ''set'' = None \<and> ps ''delete'' = None"
  by (auto split: jsval.splits jsobj.splits if_splits)

lemma closure_loc_fits: "closure_loc h c = Some l \<Longrightarrow> fits h l"
proof (cases c)
  case (ValueClosure target path)
  assume "closure_loc h c = Some l"
  with ValueClosure value_closure_loc show ?thesis by (blast intro: write_loc_fits)
next
  case (MapClosure targetMap key)
  assume "closure_loc h c = Some l"
  with MapClosure map_closure_loc [of h targetMap key l] show ?thesis by auto
qed

text \<open>A closure that has a slot and returns has put the chosen value there.\<close>

lemma call_closure_put:
  assumes loc: "closure_loc h c = Some l" and run: "call_closure c v h = Inr h'"
  shows "h' = put l (slot_opt v) h"
proof (cases c)
  case (ValueClosure target path)
  from loc ValueClosure obtain a k where r: "resolve h target path = Some (Ref a, k)"
    and w: "write_loc h a k = Some l" using value_closure_loc by blast
  show ?thesis
  proof (cases "exists v")
    case True
    have "s_SetValue h target path v = Inr (put l (Some (val v)) h)"
      by (simp only: s_SetValue_resolve [OF r] s_SetValue.simps write_loc_set [OF w])
    with run ValueClosure True show ?thesis by (simp add: slot_opt_def)
  next
    case False
    have g: "s_GetValue h target path =
       (if has_callable h l
        then Inr (case content h l of
                    Some v \<Rightarrow> \<lparr>val = v, exists = True\<rparr>
                  | None \<Rightarrow> \<lparr>val = Undefined, exists = False\<rparr>)
        else Inl TypeError)"
      by (simp only: s_GetValue_resolve [OF r] s_GetValue_last [OF w])
    have d: "s_DeleteValue h target path = Inr (put l None h)"
      by (simp only: s_DeleteValue_resolve [OF r] s_DeleteValue.simps write_loc_delete [OF w])
    show ?thesis
    proof (cases "content h l")
      case None
      with run ValueClosure False have "h' = h"
        by (simp add: g split: if_splits)
      with None False show ?thesis by (simp add: slot_opt_def put_absent)
    next
      case (Some x)
      with run ValueClosure False show ?thesis
        by (simp add: g d slot_opt_def split: if_splits)
    qed
  qed
next
  case (MapClosure targetMap key)
  from loc MapClosure obtain a ps m where t: "targetMap = Ref a" "h a = MapObj ps m"
    "l = EntryLoc a key" using map_closure_loc by blast
  with run MapClosure show ?thesis
    by (auto simp: map_set_def map_has_def map_delete_def slot_opt_def fun_upd_idem
        split: if_splits)
qed

text \<open>A closure that has a slot and can ask for own properties returns.\<close>

lemma call_closure_succeeds:
  assumes loc: "closure_loc h c = Some l" and callable: "has_callable h l"
  shows "call_closure c v h = Inr (put l (slot_opt v) h)"
proof (cases c)
  case (ValueClosure target path)
  from loc ValueClosure obtain a k where r: "resolve h target path = Some (Ref a, k)"
    and w: "write_loc h a k = Some l" using value_closure_loc by blast
  show ?thesis
  proof (cases "exists v")
    case True
    have "s_SetValue h target path v = Inr (put l (Some (val v)) h)"
      by (simp only: s_SetValue_resolve [OF r] s_SetValue.simps write_loc_set [OF w])
    with ValueClosure True show ?thesis by (simp add: slot_opt_def)
  next
    case False
    have g: "s_GetValue h target path =
       (if has_callable h l
        then Inr (case content h l of
                    Some v \<Rightarrow> \<lparr>val = v, exists = True\<rparr>
                  | None \<Rightarrow> \<lparr>val = Undefined, exists = False\<rparr>)
        else Inl TypeError)"
      by (simp only: s_GetValue_resolve [OF r] s_GetValue_last [OF w])
    have d: "s_DeleteValue h target path = Inr (put l None h)"
      by (simp only: s_DeleteValue_resolve [OF r] s_DeleteValue.simps write_loc_delete [OF w])
    show ?thesis
    proof (cases "content h l")
      case None
      with ValueClosure False callable show ?thesis
        by (simp add: g slot_opt_def put_absent)
    next
      case (Some x)
      with ValueClosure False callable show ?thesis
        by (simp add: g d slot_opt_def)
    qed
  qed
next
  case (MapClosure targetMap key)
  from loc MapClosure obtain a ps m where t: "targetMap = Ref a" "h a = MapObj ps m"
    "l = EntryLoc a key" "ps ''has'' = None" "ps ''set'' = None" "ps ''delete'' = None"
    using map_closure_loc by blast
  with MapClosure show ?thesis
    by (auto simp: map_set_def map_has_def map_delete_def slot_opt_def fun_upd_idem)
qed

lemma closure_loc_agree:
  assumes sh: "\<And>a. shape_of (h a) = shape_of (h0 a)"
    and ct: "\<And>l. l \<in> set (closure_links h0 c) \<Longrightarrow> content h l = content h0 l"
  shows "closure_loc h c = closure_loc h0 c"
proof (cases c)
  case (ValueClosure target path)
  have r: "resolve h target path = resolve h0 target path"
    using walk_agree [of h h0 target path] sh ct ValueClosure by simp
  have "write_loc h a k = write_loc h0 a k" for a k
    using sh [of a] by (cases "h a"; cases "h0 a") (auto simp: write_loc_def split: option.splits)
  with r ValueClosure show ?thesis by (auto split: option.splits jsval.splits)
next
  case (MapClosure targetMap key)
  show ?thesis
  proof (cases targetMap)
    case (Ref a)
    have p: "props_of (h a) k = props_of (h0 a) k" if "k \<in> {''has'', ''get'', ''set'', ''delete''}" for k
      using ct [of "PropLoc a k"] that MapClosure Ref by auto
    show ?thesis
    proof (cases "h0 a")
      case (MapObj ps0 m0)
      with sh [of a] obtain ps m where hm: "h a = MapObj ps m" by (cases "h a") auto
      from p [of "''has''"] p [of "''get''"] p [of "''set''"] p [of "''delete''"] hm MapObj
      show ?thesis using MapClosure Ref by simp
    next
      case (Record ps0)
      with sh [of a] show ?thesis using MapClosure Ref by (cases "h a") auto
    next
      case (Arr ps0 es0)
      with sh [of a] show ?thesis using MapClosure Ref by (cases "h a") auto
    qed
  qed (use MapClosure in simp_all)
qed


lemma closure_loc_key:
  "closure_loc h c = Some l \<Longrightarrow> l \<noteq> PropLoc a ''hasOwnProperty''"
proof (cases c)
  case (ValueClosure target path)
  assume "closure_loc h c = Some l"
  with ValueClosure obtain b k where "write_loc h b k = Some l" using value_closure_loc by blast
  then show ?thesis by (cases "h b") (auto simp: write_loc_def split: if_splits option.splits)
next
  case (MapClosure targetMap key)
  assume "closure_loc h c = Some l"
  with MapClosure map_closure_loc [of h targetMap key l] show ?thesis by auto
qed

lemma has_callable_content:
  "has_callable h l =
     (case l of
        PropLoc a k \<Rightarrow> content h (PropLoc a ''hasOwnProperty'') = None
      | IndexLoc a i \<Rightarrow> content h (PropLoc a ''hasOwnProperty'') = None
      | EntryLoc a key \<Rightarrow> True)"
  by (cases l) simp_all



lemma heap_log_line [simp]: "heap (log_line text ns kind w) = heap w"
  by (simp add: log_line_def split: option.splits)








lemma undo_times_Suc:
  "undo_times (Suc n) s =
     (case undo s of Threw e s' \<Rightarrow> Threw e s' | Done u s' \<Rightarrow> undo_times n s')"
  by simp




section \<open>Evaluating the concrete states\<close>

lemmas ex_defs = ex_calls_def ex_called_def ex_clear_def ex_rename_def ex_action_def ex_named_def
  ex_name_def ex_twice_def ex_failed_def ex_data_def ex_heap_def
  ex_world_def ex_undone_def ex_open_def initial_def cyc_heap_def cyc_state_def cyc_call_def
  cyc_entry_def cyc_called_def cyc_undone_def dep_heap_def dep_entry_def
  arr_heap_def arr_state_def arr_call_def arr_entry_def arr_called_def arr_undone_def arr_trim_def
  hide_heap_def hide_state_def hide_call_def hide_entry_def hide_called_def

lemmas op_defs = updateValue_def updateMap_def route_action_def HistoryEntry_apply_def
  HistoryEntry_undo_def HistoryEntry_redo_def HistoryEntry_log_def HistoryAction_apply_def
  chosen_def new_HistoryAction_def new_HistoryEntry_def push_def log_line_def
  s_CommitTransaction_eq undo_def redo_def entry_at_def Let_def

lemmas acc_defs = has_own_def get_prop_def set_prop_def delete_prop_def map_has_def map_get_def
  map_set_def map_delete_def own_or_inherited_def index_of_def digit_of_def set_length_def
  object_proto_def array_proto_def map_proto_def number_proto_def string_proto_def


section \<open>Calls followed by as many undos\<close>




section \<open>Applying an action\<close>

lemma run_emits_append:
  "run_emits (fs @ gs) w =
     (case run_emits fs w of Threw e w' \<Rightarrow> Threw e w' | Done u w' \<Rightarrow> run_emits gs w')"
  by (induction fs arbitrary: w) (auto split: outcome.splits)

lemma run_emits_print:
  "run_emits (map print_callback gs) w =
     Done () (w\<lparr>console := console w @ map (\<lambda>g. Printed (g (heap w))) gs\<rparr>)"
  by (induction gs arbitrary: w) (auto simp: print_callback_def)

lemma foldl_emit_fields:
  "m_Emits (foldl (\<lambda>a f. emit f a) a fs) = m_Emits a @ fs"
  "m_Apply (foldl (\<lambda>a f. emit f a) a fs) = m_Apply a"
  "m_Data (foldl (\<lambda>a f. emit f a) a fs) = m_Data a"
  "chosen v (foldl (\<lambda>a f. emit f a) a fs) = chosen v a"
  by (induction fs arbitrary: a) (auto simp: emit_def chosen_def)

lemma HistoryAction_apply_eq:
  "call_closure (m_Apply a) (chosen v a) (heap w) = Inr h' \<Longrightarrow>
   HistoryAction_apply v a w =
     (case run_emits (m_Emits a) (w\<lparr>heap := h'\<rparr>) of
        Threw e w' \<Rightarrow> Threw e w'
      | Done u w' \<Rightarrow>
          (case m_Data a of None \<Rightarrow> Threw TypeError w' | Some d \<Rightarrow> Done (entity_number d) w'))"
  by (cases "m_Emits a") (simp_all add: HistoryAction_apply_def)

text \<open>
  C6. Take any action whose value mutation returns in the given world and whose earlier
  callbacks return, and register printing callbacks on it with \<^verbatim>\<open>emit\<close>, one after the
  other. Then one call of \<^verbatim>\<open>apply\<close>, in either direction, leaves on the console exactly
  one line per registered callback, in the order of registration, and every line shows
  the heap after the mutation. The action itself is not changed by \<^verbatim>\<open>apply\<close>, so this
  holds of every later call as well, and it holds whether or not the action has data.
\<close>

theorem emits_fire_in_order:
  assumes mut: "call_closure (m_Apply a) (chosen v a) (heap w) = Inr h'"
    and before: "run_emits (m_Emits a) (w\<lparr>heap := h'\<rparr>) = Done () w1"
  shows "state_of (HistoryAction_apply v (foldl (\<lambda>a f. emit f a) a (map print_callback gs)) w)
     = w1\<lparr>console := console w1 @ map (\<lambda>g. Printed (g (heap w1))) gs\<rparr>"
proof -
  let ?a = "foldl (\<lambda>a f. emit f a) a (map print_callback gs)"
  have "call_closure (m_Apply ?a) (chosen v ?a) (heap w) = Inr h'"
    using mut by (simp add: foldl_emit_fields)
  from HistoryAction_apply_eq [OF this]
  show ?thesis
    by (simp add: foldl_emit_fields run_emits_append before run_emits_print split: option.splits)
qed

theorem emits_fire_in_order_witness:
  "call_closure (m_Apply (ex_action ''A'' ''B'' (Some ex_data)))
      (chosen New (ex_action ''A'' ''B'' (Some ex_data))) (heap ex_world) = Inr (ex_named ''B'')
   \<and> run_emits (m_Emits (ex_action ''A'' ''B'' (Some ex_data))) (ex_world\<lparr>heap := ex_named ''B''\<rparr>)
        = Done () (ex_world\<lparr>heap := ex_named ''B''\<rparr>)
   \<and> state_of (HistoryAction_apply New
        (foldl (\<lambda>a f. emit f a) (ex_action ''A'' ''B'' (Some ex_data))
           (map print_callback [ex_name, \<lambda>h. ''done''])) ex_world)
      = \<lparr>heap = ex_named ''B'', console = [Printed ''B'', Printed ''done'']\<rparr>"
proof -
  let ?a = "ex_action ''A'' ''B'' (Some ex_data)"
  have m: "call_closure (m_Apply ?a) (chosen New ?a) (heap ex_world) = Inr (ex_named ''B'')"
    by (simp add: ex_defs op_defs acc_defs)
  have b: "run_emits (m_Emits ?a) (ex_world\<lparr>heap := ex_named ''B''\<rparr>)
        = Done () (ex_world\<lparr>heap := ex_named ''B''\<rparr>)"
    by (simp add: ex_action_def new_HistoryAction_def)
  from emits_fire_in_order [OF m b, of "[ex_name, \<lambda>h. ''done'']"] m b show ?thesis
    by (simp add: ex_world_def ex_name_def ex_named_def acc_defs)
qed

text \<open>
  C10. An action without data never returns from \<^verbatim>\<open>apply\<close>: when the closure and the
  callbacks have run, the read of \<^verbatim>\<open>entity_number\<close> throws, and the world it leaves is
  the world after the mutation and the callbacks. With data, the same run returns the
  entity number. \<^verbatim>\<open>updateValue\<close> and \<^verbatim>\<open>updateMap\<close> called without data build such an
  action and apply it, so they never return either.
\<close>

theorem apply_without_data:
  "(m_Data a = None \<longrightarrow>
      (\<exists>e w'. HistoryAction_apply v a w = Threw e w')
    \<and> (\<forall>h' w'. call_closure (m_Apply a) (chosen v a) (heap w) = Inr h'
          \<and> run_emits (m_Emits a) (w\<lparr>heap := h'\<rparr>) = Done () w'
          \<longrightarrow> HistoryAction_apply v a w = Threw TypeError w'))
   \<and> (\<forall>d h' w'. m_Data a = Some d
          \<and> call_closure (m_Apply a) (chosen v a) (heap w) = Inr h'
          \<and> run_emits (m_Emits a) (w\<lparr>heap := h'\<rparr>) = Done () w'
          \<longrightarrow> HistoryAction_apply v a w = Done (entity_number d) w')
   \<and> (\<exists>r. updateValue target path value text None remove s = Some r \<and> \<not> returned r)
   \<and> (\<exists>r. updateMap targetMap key value text None remove s = Some r \<and> \<not> returned r)"
proof -
  have 1: "\<exists>e w'. HistoryAction_apply v a w = Threw e w'" if "m_Data a = None" for a v w
    using that by (auto simp: HistoryAction_apply_def split: sum.splits outcome.splits)
  have 2: "\<exists>r. route_action text act s = Some r \<and> \<not> returned r" if nd: "m_Data act = None" for act
  proof (cases "s_Transaction s")
    case None
    obtain e w' where "HistoryAction_apply New act (world s) = Threw e w'"
      using 1 [OF nd] by blast
    with None show ?thesis
      by (simp add: route_action_def HistoryEntry_apply_def push_def new_HistoryEntry_def)
  next
    case (Some t)
    obtain e w' where "HistoryAction_apply New act (world s) = Threw e w'"
      using 1 [OF nd] by blast
    with Some show ?thesis by (simp add: route_action_def)
  qed
  have 3: "\<exists>r. updateValue target path value text None remove s = Some r \<and> \<not> returned r"
    using 2 by (auto simp: updateValue_def new_HistoryAction_def Let_def split: sum.splits)
  have 4: "\<exists>r. updateMap targetMap key value text None remove s = Some r \<and> \<not> returned r"
    using 2 by (auto simp: updateMap_def new_HistoryAction_def Let_def split: sum.splits)
  show ?thesis using 1 3 4 by (auto simp: HistoryAction_apply_eq)
qed

theorem apply_without_data_witness:
  "m_Data (ex_action ''A'' ''B'' None) = None
   \<and> HistoryAction_apply New (ex_action ''A'' ''B'' None) ex_world
       = Threw TypeError \<lparr>heap = ex_named ''B'', console = []\<rparr>
   \<and> m_Data (ex_action ''A'' ''B'' (Some ex_data)) = Some ex_data
   \<and> HistoryAction_apply New (ex_action ''A'' ''B'' (Some ex_data)) ex_world
       = Done 7 \<lparr>heap = ex_named ''B'', console = []\<rparr>"
proof -
  have c: "call_closure (m_Apply (ex_action ''A'' ''B'' d)) (chosen New (ex_action ''A'' ''B'' d))
      (heap ex_world) = Inr (ex_named ''B'')" for d
    by (simp add: ex_defs op_defs acc_defs)
  have e: "run_emits (m_Emits (ex_action ''A'' ''B'' d)) (ex_world\<lparr>heap := ex_named ''B''\<rparr>)
      = Done () \<lparr>heap = ex_named ''B'', console = []\<rparr>" for d
    by (simp add: ex_action_def new_HistoryAction_def ex_world_def)
  have n: "m_Data (ex_action ''A'' ''B'' d) = d" for d
    by (simp add: ex_action_def new_HistoryAction_def)
  from apply_without_data [of "ex_action ''A'' ''B'' None" New ex_world]
       apply_without_data [of "ex_action ''A'' ''B'' (Some ex_data)" New ex_world]
       c e n
  show ?thesis by (auto simp: ex_data_def)
qed

section \<open>The order within an entry\<close>

lemma apply_actions_append:
  "apply_actions v (xs @ ys) acc w =
     (case apply_actions v xs acc w of
        Threw e w' \<Rightarrow> Threw e w'
      | Done ns w' \<Rightarrow> apply_actions v ys ns w')"
  by (induction xs arbitrary: acc w) (auto split: outcome.splits)

lemma apply_actions_two:
  "apply_actions v (m_Actions (push a2 (push a1 e))) [] w =
     (case apply_actions v (m_Actions e) [] w of
        Threw err w0 \<Rightarrow> Threw err w0
      | Done ns w0 \<Rightarrow>
          (case HistoryAction_apply v a1 w0 of
             Threw err w1 \<Rightarrow> Threw err w1
           | Done n1 w1 \<Rightarrow>
               (case HistoryAction_apply v a2 w1 of
                  Threw err w2 \<Rightarrow> Threw err w2
                | Done n2 w2 \<Rightarrow> Done (ns @ [n1, n2]) w2)))"
  by (simp add: push_def apply_actions_append split: outcome.splits)

text \<open>
  C7. In an entry with two or more actions, take the two pushed last, \<open>a1\<close> before
  \<open>a2\<close>. \<^verbatim>\<open>undo\<close> first applies the old values of the actions pushed before them, in
  their order, then the old value of \<open>a1\<close>, then the old value of \<open>a2\<close> in the world
  that \<open>a1\<close> left; the entity numbers are logged in that order. \<^verbatim>\<open>apply\<close> walks the
  actions in the same order with the new values. Nothing is reversed.
\<close>

theorem undo_forward_order:
  "HistoryEntry_undo (push a2 (push a1 e)) w =
     (case apply_actions Old (m_Actions e) [] w of
        Threw err w0 \<Rightarrow> Threw err w0
      | Done ns w0 \<Rightarrow>
          (case HistoryAction_apply Old a1 w0 of
             Threw err w1 \<Rightarrow> Threw err w1
           | Done n1 w1 \<Rightarrow>
               (case HistoryAction_apply Old a2 w1 of
                  Threw err w2 \<Rightarrow> Threw err w2
                | Done n2 w2 \<Rightarrow> Done () (log_line (m_Text e) (ns @ [n1, n2]) Undo w2))))
   \<and> HistoryEntry_apply New (push a2 (push a1 e)) w =
     (case apply_actions New (m_Actions e) [] w of
        Threw err w0 \<Rightarrow> Threw err w0
      | Done ns w0 \<Rightarrow>
          (case HistoryAction_apply New a1 w0 of
             Threw err w1 \<Rightarrow> Threw err w1
           | Done n1 w1 \<Rightarrow>
               (case HistoryAction_apply New a2 w1 of
                  Threw err w2 \<Rightarrow> Threw err w2
                | Done n2 w2 \<Rightarrow> Done () (log_line (m_Text e) (ns @ [n1, n2]) Plain w2))))"
proof -
  have t: "m_Text (push a2 (push a1 e)) = m_Text e" by (simp add: push_def)
  show ?thesis
    by (simp add: HistoryEntry_undo_def HistoryEntry_apply_def apply_actions_two t
        split: outcome.splits)
qed

theorem undo_forward_order_witness:
  "HistoryEntry_undo ex_twice \<lparr>heap = ex_named ''C'', console = []\<rparr>
     = Done () \<lparr>heap = ex_named ''B'', console = [EntryLine [7, 7] Undo ''batch'']\<rparr>
   \<and> HistoryAction_apply Old (ex_action ''A'' ''B'' (Some ex_data)) \<lparr>heap = ex_named ''C'', console = []\<rparr>
     = Done 7 \<lparr>heap = ex_named ''A'', console = []\<rparr>
   \<and> HistoryAction_apply Old (ex_action ''B'' ''C'' (Some ex_data)) \<lparr>heap = ex_named ''A'', console = []\<rparr>
     = Done 7 \<lparr>heap = ex_named ''B'', console = []\<rparr>"
proof -
  have 1: "HistoryAction_apply Old (ex_action ''A'' ''B'' (Some ex_data)) \<lparr>heap = ex_named ''C'', console = []\<rparr>
     = Done 7 \<lparr>heap = ex_named ''A'', console = []\<rparr>"
    by (simp add: ex_defs op_defs acc_defs)
  have 2: "HistoryAction_apply Old (ex_action ''B'' ''C'' (Some ex_data)) \<lparr>heap = ex_named ''A'', console = []\<rparr>
     = Done 7 \<lparr>heap = ex_named ''B'', console = []\<rparr>"
    by (simp add: ex_defs op_defs acc_defs)
  from undo_forward_order [of "ex_action ''B'' ''C'' (Some ex_data)" "ex_action ''A'' ''B'' (Some ex_data)"
      "new_HistoryEntry (Some ''batch'')" "\<lparr>heap = ex_named ''C'', console = []\<rparr>"] 1 2
  show ?thesis by (simp add: ex_twice_def new_HistoryEntry_def log_line_def)
qed

section \<open>Mutation calls inside a transaction\<close>

text \<open>
  C8. With a transaction open, \<^verbatim>\<open>updateValue\<close> and \<^verbatim>\<open>updateMap\<close> always come back, and
  whether they return or throw, the committed entries and the cursor are what they
  were. When the call returns, the transaction is still open and the heap is the heap
  that the closure of the new action, called with the new value, made of the old one:
  the mutation has happened before any commit.
\<close>

theorem mutation_in_transaction:
  assumes "s_Transaction s = Some t"
  shows "(\<exists>r. updateValue target path newValue descr data remove s = Some r
            \<and> s_HistoryEntries (state_of r) = s_HistoryEntries s
            \<and> s_HistoryIndex (state_of r) = s_HistoryIndex s
            \<and> (returned r \<longrightarrow>
                 s_Transaction (state_of r) \<noteq> None
                 \<and> call_closure (ValueClosure target path) \<lparr>val = newValue, exists = \<not> remove\<rparr>
                      (heap (world s)) = Inr (heap (world (state_of r)))))
       \<and> (\<exists>r. updateMap targetMap key newValue descr data remove s = Some r
            \<and> s_HistoryEntries (state_of r) = s_HistoryEntries s
            \<and> s_HistoryIndex (state_of r) = s_HistoryIndex s
            \<and> (returned r \<longrightarrow>
                 s_Transaction (state_of r) \<noteq> None
                 \<and> call_closure (MapClosure targetMap key) \<lparr>val = newValue, exists = \<not> remove\<rparr>
                      (heap (world s)) = Inr (heap (world (state_of r)))))"
proof -
  have route: "\<exists>r. route_action descr act s = Some r
      \<and> s_HistoryEntries (state_of r) = s_HistoryEntries s
      \<and> s_HistoryIndex (state_of r) = s_HistoryIndex s
      \<and> (returned r \<longrightarrow> s_Transaction (state_of r) \<noteq> None
            \<and> call_closure (m_Apply act) (m_NewValue act) (heap (world s))
                 = Inr (heap (world (state_of r))))"
    if "m_Emits act = []" for act
    using assms that
    by (auto simp: route_action_def HistoryAction_apply_def chosen_def Let_def
        split: outcome.splits sum.splits option.splits)
  have "\<exists>r. updateValue target path newValue descr data remove s = Some r
            \<and> s_HistoryEntries (state_of r) = s_HistoryEntries s
            \<and> s_HistoryIndex (state_of r) = s_HistoryIndex s
            \<and> (returned r \<longrightarrow>
                 s_Transaction (state_of r) \<noteq> None
                 \<and> call_closure (ValueClosure target path) \<lparr>val = newValue, exists = \<not> remove\<rparr>
                      (heap (world s)) = Inr (heap (world (state_of r))))"
  proof (cases "s_GetValue (heap (world s)) target path")
    case (Inl e)
    then show ?thesis by (simp add: updateValue_def)
  next
    case (Inr oldValue)
    let ?act = "new_HistoryAction oldValue \<lparr>val = newValue, exists = \<not> remove\<rparr>
        data (ValueClosure target path)"
    have f: "m_Emits ?act = []" "m_Apply ?act = ValueClosure target path"
      "m_NewValue ?act = \<lparr>val = newValue, exists = \<not> remove\<rparr>"
      by (simp_all add: new_HistoryAction_def)
    have "updateValue target path newValue descr data remove s = route_action descr ?act s"
      using Inr by (simp add: updateValue_def)
    with route [OF f(1)] show ?thesis unfolding f by simp
  qed
  moreover
  have "\<exists>r. updateMap targetMap key newValue descr data remove s = Some r
            \<and> s_HistoryEntries (state_of r) = s_HistoryEntries s
            \<and> s_HistoryIndex (state_of r) = s_HistoryIndex s
            \<and> (returned r \<longrightarrow>
                 s_Transaction (state_of r) \<noteq> None
                 \<and> call_closure (MapClosure targetMap key) \<lparr>val = newValue, exists = \<not> remove\<rparr>
                      (heap (world s)) = Inr (heap (world (state_of r))))"
  proof (cases "map_has (heap (world s)) targetMap key")
    case (Inl e)
    then show ?thesis by (simp add: updateMap_def)
  next
    case (Inr present)
    show ?thesis
    proof (cases "if present then map_get (heap (world s)) targetMap key else Inr Undefined")
      case (Inl e)
      with Inr show ?thesis by (simp add: updateMap_def)
    next
      case old: (Inr old)
      let ?act = "new_HistoryAction \<lparr>val = old, exists = present\<rparr>
          \<lparr>val = newValue, exists = \<not> remove\<rparr> data (MapClosure targetMap key)"
      have f: "m_Emits ?act = []" "m_Apply ?act = MapClosure targetMap key"
        "m_NewValue ?act = \<lparr>val = newValue, exists = \<not> remove\<rparr>"
        by (simp_all add: new_HistoryAction_def)
      have "updateMap targetMap key newValue descr data remove s = route_action descr ?act s"
        using Inr old by (simp add: updateMap_def)
      with route [OF f(1)] show ?thesis unfolding f by simp
    qed
  qed
  ultimately show ?thesis by simp
qed

theorem mutation_in_transaction_witness:
  "s_Transaction ex_open = Some (new_HistoryEntry (Some ''batch''))
   \<and> (\<exists>r. updateValue (Ref 0) [''name''] (Str ''B'') None (Some ex_data) False ex_open = Some r
          \<and> returned r
          \<and> s_HistoryEntries (state_of r) = [] \<and> s_HistoryIndex (state_of r) = 0
          \<and> heap (world (state_of r)) = ex_named ''B'')
   \<and> (\<exists>r. updateMap (Ref 1) (Num 1) Undefined None (Some ex_data) True ex_open = Some r
          \<and> returned r
          \<and> s_HistoryEntries (state_of r) = [] \<and> s_HistoryIndex (state_of r) = 0
          \<and> heap (world (state_of r)) = ex_heap(1 := MapObj Map.empty Map.empty))"
proof -
  have t: "s_Transaction ex_open = Some (new_HistoryEntry (Some ''batch''))"
    by (simp add: ex_open_def)
  have v: "returned (the (updateValue (Ref 0) [''name''] (Str ''B'') None (Some ex_data) False ex_open))"
    by (simp add: ex_defs op_defs acc_defs)
  have m: "returned (the (updateMap (Ref 1) (Num 1) Undefined None (Some ex_data) True ex_open))"
    by (simp add: ex_defs op_defs acc_defs)
  have cv: "call_closure (ValueClosure (Ref 0) [''name'']) \<lparr>val = Str ''B'', exists = \<not> False\<rparr>
      (heap (world ex_open)) = Inr (ex_named ''B'')"
    by (simp add: ex_defs acc_defs)
  have cm: "call_closure (MapClosure (Ref 1) (Num 1)) \<lparr>val = Undefined, exists = \<not> True\<rparr>
      (heap (world ex_open)) = Inr (ex_heap(1 := MapObj Map.empty Map.empty))"
    by (simp add: ex_defs acc_defs)
  have e: "s_HistoryEntries ex_open = []" "s_HistoryIndex ex_open = 0"
    by (simp_all add: ex_defs)
  note v1 = mutation_in_transaction [OF t, where target = "Ref 0" and path = "[''name'']"
      and newValue = "Str ''B''" and descr = None and data = "Some ex_data" and remove = False
      and targetMap = "Ref 1" and key = "Num 1", THEN conjunct1, unfolded cv e]
  then obtain r1 where r1: "updateValue (Ref 0) [''name''] (Str ''B'') None (Some ex_data) False ex_open = Some r1"
      "s_HistoryEntries (state_of r1) = []" "s_HistoryIndex (state_of r1) = 0"
      "returned r1 \<longrightarrow> Inr (ex_named ''B'') = Inr (heap (world (state_of r1)))"
    by blast
  note v2 = mutation_in_transaction [OF t, where target = "Ref 0" and path = "[''name'']"
      and newValue = Undefined and descr = None and data = "Some ex_data" and remove = True
      and targetMap = "Ref 1" and key = "Num 1", THEN conjunct2, unfolded cm e]
  then obtain r2 where r2: "updateMap (Ref 1) (Num 1) Undefined None (Some ex_data) True ex_open = Some r2"
      "s_HistoryEntries (state_of r2) = []" "s_HistoryIndex (state_of r2) = 0"
      "returned r2 \<longrightarrow> Inr (ex_heap(1 := MapObj Map.empty Map.empty)) = Inr (heap (world (state_of r2)))"
    by blast
  from r1 r2 v m t show ?thesis by auto
qed

section \<open>The example of the header\<close>

text \<open>
  C9 at its own input: \<^verbatim>\<open>updateValue({name: 'A'}, ['name'], 'B', 'rename')\<close> on
  the empty history, no data given. The call sets the name to \<^verbatim>\<open>'B'\<close> and then throws at
  the read of \<^verbatim>\<open>entity_number\<close>; nothing is committed, so \<^verbatim>\<open>undo()\<close> throws as well and
  the name stays \<^verbatim>\<open>'B'\<close>.
\<close>

theorem rename_without_data:
  "updateValue (Ref 0) [''name''] (Str ''B'') (Some ''rename'') None False (initial ex_world)
     = Some (Threw TypeError ex_failed)
   \<and> get_prop (heap (world ex_failed)) (Ref 0) ''name'' = Inr (Str ''B'')
   \<and> s_HistoryEntries ex_failed = []
   \<and> \<not> canUndo ex_failed
   \<and> undo ex_failed = Threw TypeError ex_failed
   \<and> redo ex_failed = Threw TypeError ex_failed"
  by (simp add: ex_defs op_defs acc_defs canUndo_def)

text \<open>With data given, the same example runs as the header says it does.\<close>

lemma rename_with_data:
  "run_calls [UpdateValue (Ref 0) [''name''] (Str ''B'') (Some ''rename'') (Some ex_data) False]
      (initial ex_world)
     = Some \<lparr>s_HistoryIndex = 1, s_HistoryEntries = [ex_rename ''A'' ''B''], s_Transaction = None,
             world = \<lparr>heap = ex_named ''B'', console = [EntryLine [7] Plain ''rename'']\<rparr>\<rparr>
   \<and> undo \<lparr>s_HistoryIndex = 1, s_HistoryEntries = [ex_rename ''A'' ''B''], s_Transaction = None,
             world = \<lparr>heap = ex_named ''B'', console = [EntryLine [7] Plain ''rename'']\<rparr>\<rparr>
     = Done () \<lparr>s_HistoryIndex = 0, s_HistoryEntries = [ex_rename ''A'' ''B''], s_Transaction = None,
             world = \<lparr>heap = ex_named ''A'',
                      console = [EntryLine [7] Plain ''rename'', EntryLine [7] Undo ''rename'']\<rparr>\<rparr>
   \<and> redo \<lparr>s_HistoryIndex = 0, s_HistoryEntries = [ex_rename ''A'' ''B''], s_Transaction = None,
             world = \<lparr>heap = ex_named ''A'',
                      console = [EntryLine [7] Plain ''rename'', EntryLine [7] Undo ''rename'']\<rparr>\<rparr>
     = Done () \<lparr>s_HistoryIndex = 1, s_HistoryEntries = [ex_rename ''A'' ''B''], s_Transaction = None,
             world = \<lparr>heap = ex_named ''B'',
                      console = [EntryLine [7] Plain ''rename'', EntryLine [7] Undo ''rename'',
                                 EntryLine [7] Redo ''rename'']\<rparr>\<rparr>"
  by (simp add: ex_defs op_defs acc_defs)

section \<open>New, old and new again\<close>

lemma quiet_run:
  "(\<And>f. f \<in> set fs \<Longrightarrow> quiet f) \<Longrightarrow> \<exists>c. run_emits fs w = Done () (w\<lparr>console := c\<rparr>)"
proof (induction fs arbitrary: w)
  case Nil
  have "w = w\<lparr>console := console w\<rparr>" by simp
  then show ?case by (metis run_emits.simps(1))
next
  case (Cons f fs)
  from Cons.prems [of f] obtain c where f: "f w = Done () (w\<lparr>console := c\<rparr>)"
    by (auto simp: quiet_def)
  from Cons.IH [of "w\<lparr>console := c\<rparr>"] Cons.prems obtain c' where
    "run_emits fs (w\<lparr>console := c\<rparr>) = Done () (w\<lparr>console := c, console := c'\<rparr>)" by auto
  with f show ?case by auto
qed

lemma action_step:
  assumes "HistoryAction_apply v a w = Done n w'" and "\<And>f. f \<in> set (m_Emits a) \<Longrightarrow> quiet f"
    and loc: "closure_loc (heap w) (m_Apply a) = Some l"
  shows "heap w' = put l (slot_opt (chosen v a)) (heap w)"
proof -
  from assms(1) obtain h' where c: "call_closure (m_Apply a) (chosen v a) (heap w) = Inr h'"
    by (auto simp: HistoryAction_apply_def split: sum.splits)
  from quiet_run [of "m_Emits a" "w\<lparr>heap := h'\<rparr>"] assms(2) obtain cs where
    r: "run_emits (m_Emits a) (w\<lparr>heap := h'\<rparr>) = Done () (w\<lparr>heap := h', console := cs\<rparr>)" by auto
  from assms(1) have "heap w' = h'"
    by (auto simp: HistoryAction_apply_eq [OF c] r split: option.splits)
  with call_closure_put [OF loc c] show ?thesis by simp
qed

lemma planned_outside:
  "l \<notin> written h0 as \<Longrightarrow> planned v h0 as f l = f l"
  by (induction as arbitrary: f) (auto simp: written_def split: option.splits)

lemma planned_inside:
  "l \<in> written h0 as \<Longrightarrow> planned v h0 as f l = planned v h0 as g l"
proof (induction as arbitrary: f g)
  case Nil
  then show ?case by (simp add: written_def)
next
  case (Cons a as)
  show ?case
  proof (cases "l \<in> written h0 as")
    case True
    then show ?thesis using Cons.IH by simp
  next
    case False
    with Cons.prems have "closure_loc h0 (m_Apply a) = Some l" by (auto simp: written_def)
    with False show ?thesis by (simp add: planned_outside)
  qed
qed

lemma independent_loc:
  assumes "independent h0 as" and "a \<in> set as"
  shows "\<exists>l. closure_loc h0 (m_Apply a) = Some l"
  using assms by (fastforce simp: independent_def split: option.splits)

lemma agrees_closure_loc:
  assumes "agrees (written h0 as) h h0" and "independent h0 as" and "a \<in> set as"
  shows "closure_loc h (m_Apply a) = closure_loc h0 (m_Apply a)"
proof (rule closure_loc_agree)
  show "shape_of (h b) = shape_of (h0 b)" for b using assms(1) by (simp add: agrees_def)
  show "content h l = content h0 l" if "l \<in> set (closure_links h0 (m_Apply a))" for l
  proof -
    have "l \<notin> written h0 as"
      using assms(2,3) that by (fastforce simp: independent_def written_def split: option.splits)
    with assms(1) show ?thesis by (simp add: agrees_def)
  qed
qed

lemma pass:
  assumes "independent h0 as" and "\<And>a f. a \<in> set as \<Longrightarrow> f \<in> set (m_Emits a) \<Longrightarrow> quiet f"
  shows "set as' \<subseteq> set as \<Longrightarrow> agrees (written h0 as) (heap w) h0 \<Longrightarrow>
         apply_actions v as' acc w = Done ns w' \<Longrightarrow>
         agrees (written h0 as) (heap w') h0
         \<and> content (heap w') = planned v h0 as' (content (heap w))"
proof (induction as' arbitrary: w acc)
  case Nil
  then show ?case by simp
next
  case (Cons a rest)
  from Cons.prems(3) obtain n w1 where
    a: "HistoryAction_apply v a w = Done n w1" and r: "apply_actions v rest (acc @ [n]) w1 = Done ns w'"
    by (auto split: outcome.splits)
  have mem: "a \<in> set as" using Cons.prems(1) by simp
  from independent_loc [OF assms(1) mem] obtain l where
    l0: "closure_loc h0 (m_Apply a) = Some l" by blast
  have l: "closure_loc (heap w) (m_Apply a) = Some l"
    using agrees_closure_loc [OF Cons.prems(2) assms(1) mem] l0 by simp
  have h1: "heap w1 = put l (slot_opt (chosen v a)) (heap w)"
    using a assms(2) [OF mem] l by (rule action_step)
  have lw: "l \<in> written h0 as" using l0 mem by (auto simp: written_def)
  have fit: "fits (heap w) l" using l by (rule closure_loc_fits)
  have c1: "content (heap w1) = (content (heap w))(l := slot_opt (chosen v a))"
    by (rule ext) (simp add: h1 content_put [OF fit])
  have ag: "agrees (written h0 as) (heap w1) h0"
    using Cons.prems(2) lw by (auto simp: agrees_def h1 content_put [OF fit])
  from Cons.IH [OF _ ag r] Cons.prems(1) have
    "agrees (written h0 as) (heap w') h0 \<and> content (heap w') = planned v h0 rest (content (heap w1))"
    by simp
  then show ?case by (simp add: c1 l0)
qed

lemma entry_pass:
  assumes "independent h0 (m_Actions e)"
    and "\<And>a f. a \<in> set (m_Actions e) \<Longrightarrow> f \<in> set (m_Emits a) \<Longrightarrow> quiet f"
    and "agrees (written h0 (m_Actions e)) (heap w) h0"
    and "HistoryEntry_apply v e w = Done () w'"
  shows "agrees (written h0 (m_Actions e)) (heap w') h0
       \<and> content (heap w') = planned v h0 (m_Actions e) (content (heap w))"
proof -
  from assms(4) obtain ns w1 where
    a: "apply_actions v (m_Actions e) [] w = Done ns w1" and w': "heap w' = heap w1"
    by (auto simp: HistoryEntry_apply_def split: outcome.splits)
  from pass [OF assms(1,2) _ assms(3) a] w' show ?thesis by simp
qed




text \<open>
  The two later applications need not be assumed to return. When no object that the
  entry writes to hides \<^verbatim>\<open>hasOwnProperty\<close>, they return as soon as the first one has.
\<close>

lemma agrees_callable:
  assumes "agrees (written h0 as) h h0"
  shows "has_callable h l = has_callable h0 l"
proof -
  have "PropLoc a ''hasOwnProperty'' \<notin> written h0 as" for a
    using closure_loc_key [of h0 _ _ a] by (auto simp: written_def)
  with assms have "content h (PropLoc a ''hasOwnProperty'') = content h0 (PropLoc a ''hasOwnProperty'')" for a
    unfolding agrees_def by blast
  then show ?thesis unfolding has_callable_content by (cases l) simp_all
qed

lemma pass_facts:
  assumes "independent h0 as" and "\<And>a f. a \<in> set as \<Longrightarrow> f \<in> set (m_Emits a) \<Longrightarrow> quiet f"
  shows "set as' \<subseteq> set as \<Longrightarrow> agrees (written h0 as) (heap w) h0 \<Longrightarrow>
         apply_actions v as' acc w = Done ns w' \<Longrightarrow> a \<in> set as' \<Longrightarrow> m_Data a \<noteq> None"
proof (induction as' arbitrary: w acc)
  case Nil
  then show ?case by simp
next
  case (Cons b rest)
  from Cons.prems(3) obtain n w1 where
    b: "HistoryAction_apply v b w = Done n w1" and r: "apply_actions v rest (acc @ [n]) w1 = Done ns w'"
    by (auto split: outcome.splits)
  have mem: "b \<in> set as" using Cons.prems(1) by simp
  have sub: "set [b] \<subseteq> set as" using mem by simp
  have one: "apply_actions v [b] acc w = Done (acc @ [n]) w1" using b by simp
  from pass [OF assms sub Cons.prems(2) one] have ag: "agrees (written h0 as) (heap w1) h0" by simp
  have d: "m_Data b \<noteq> None"
    using b by (auto simp: HistoryAction_apply_def split: sum.splits outcome.splits option.splits)
  show ?case
  proof (cases "a = b")
    case True
    with d show ?thesis by simp
  next
    case False
    with Cons.prems(4) have "a \<in> set rest" by simp
    from Cons.IH [OF _ ag r this] Cons.prems(1) show ?thesis by simp
  qed
qed

lemma pass_returns:
  assumes ind: "independent h0 as"
    and q: "\<And>a f. a \<in> set as \<Longrightarrow> f \<in> set (m_Emits a) \<Longrightarrow> quiet f"
    and call: "\<And>a l. a \<in> set as \<Longrightarrow> closure_loc h0 (m_Apply a) = Some l \<Longrightarrow> has_callable h0 l"
    and res: "\<And>a. a \<in> set as \<Longrightarrow> m_Data a \<noteq> None"
  shows "set as' \<subseteq> set as \<Longrightarrow> agrees (written h0 as) (heap w) h0 \<Longrightarrow>
         \<exists>ns w'. apply_actions v as' acc w = Done ns w'"
proof (induction as' arbitrary: w acc)
  case Nil
  then show ?case by simp
next
  case (Cons a rest)
  have mem: "a \<in> set as" using Cons.prems(1) by simp
  from independent_loc [OF ind mem] res [OF mem] obtain l d where
    l0: "closure_loc h0 (m_Apply a) = Some l" and d: "m_Data a = Some d" by auto
  have l: "closure_loc (heap w) (m_Apply a) = Some l"
    using agrees_closure_loc [OF Cons.prems(2) ind mem] l0 by simp
  have "has_callable (heap w) l"
    using agrees_callable [OF Cons.prems(2)] call [OF mem l0] by simp
  with l have c: "call_closure (m_Apply a) (chosen v a) (heap w)
      = Inr (put l (slot_opt (chosen v a)) (heap w))"
    by (rule call_closure_succeeds)
  from quiet_run [of "m_Emits a" "w\<lparr>heap := put l (slot_opt (chosen v a)) (heap w)\<rparr>"] q [OF mem]
  obtain cs where "run_emits (m_Emits a) (w\<lparr>heap := put l (slot_opt (chosen v a)) (heap w)\<rparr>)
      = Done () (w\<lparr>heap := put l (slot_opt (chosen v a)) (heap w), console := cs\<rparr>)" by auto
  then have step: "HistoryAction_apply v a w
      = Done (entity_number d) (w\<lparr>heap := put l (slot_opt (chosen v a)) (heap w), console := cs\<rparr>)"
    by (simp add: HistoryAction_apply_eq [OF c] d)
  let ?w1 = "w\<lparr>heap := put l (slot_opt (chosen v a)) (heap w), console := cs\<rparr>"
  have sub: "set [a] \<subseteq> set as" using mem by simp
  have one: "apply_actions v [a] acc w = Done (acc @ [entity_number d]) ?w1" using step by simp
  from pass [OF ind q sub Cons.prems(2) one] have ag: "agrees (written h0 as) (heap ?w1) h0" by simp
  from Cons.IH [OF _ ag, of "acc @ [entity_number d]"] Cons.prems(1)
  obtain ns w' where "apply_actions v rest (acc @ [entity_number d]) ?w1 = Done ns w'" by auto
  with step show ?case by simp
qed

lemma later_applications_return:
  assumes ind: "independent (heap w) (m_Actions e)"
    and q: "\<forall>a \<in> set (m_Actions e). \<forall>f \<in> set (m_Emits a). quiet f"
    and call: "\<forall>a \<in> set (m_Actions e). \<forall>l. closure_loc (heap w) (m_Apply a) = Some l
                 \<longrightarrow> has_callable (heap w) l"
    and 1: "HistoryEntry_apply New e w = Done () w1"
  shows "\<exists>w2 w3. HistoryEntry_apply Old e w1 = Done () w2
           \<and> HistoryEntry_apply New e w2 = Done () w3
           \<and> heap w3 = heap w1"
proof -
  let ?W = "written (heap w) (m_Actions e)"
  let ?as = "m_Actions e"
  have q': "\<And>a f. a \<in> set ?as \<Longrightarrow> f \<in> set (m_Emits a) \<Longrightarrow> quiet f" using q by blast
  have call': "\<And>a l. a \<in> set ?as \<Longrightarrow> closure_loc (heap w) (m_Apply a) = Some l
      \<Longrightarrow> has_callable (heap w) l" using call by blast
  have a0: "agrees ?W (heap w) (heap w)" by (simp add: agrees_def)
  from 1 obtain ns w0 where p0: "apply_actions New ?as [] w = Done ns w0"
    by (auto simp: HistoryEntry_apply_def split: outcome.splits)
  have res: "\<And>a. a \<in> set ?as \<Longrightarrow> m_Data a \<noteq> None"
    using pass_facts [OF ind q' _ a0 p0] by simp
  from entry_pass [OF ind q' a0 1] have a1: "agrees ?W (heap w1) (heap w)" by simp
  have "\<exists>ns w'. apply_actions Old ?as [] w1 = Done ns w'"
  proof (rule pass_returns)
    show "independent (heap w) ?as" by (rule ind)
    show "agrees ?W (heap w1) (heap w)" by (rule a1)
  qed (use q' call' res in auto)
  then obtain w2 where 2: "HistoryEntry_apply Old e w1 = Done () w2"
    by (auto simp: HistoryEntry_apply_def)
  from entry_pass [OF ind q' a1 2] have a2: "agrees ?W (heap w2) (heap w)" by simp
  have "\<exists>ns w'. apply_actions New ?as [] w2 = Done ns w'"
  proof (rule pass_returns)
    show "independent (heap w) ?as" by (rule ind)
    show "agrees ?W (heap w2) (heap w)" by (rule a2)
  qed (use q' call' res in auto)
  then obtain w3 where 3: "HistoryEntry_apply New e w2 = Done () w3"
    by (auto simp: HistoryEntry_apply_def)
  have "heap w3 = heap w1"
  proof (rule heap_eqI)
    from entry_pass [OF ind q' a0 1] have c1: "content (heap w1) = planned New (heap w) ?as (content (heap w))" by simp
    from entry_pass [OF ind q' a1 2] have c2: "content (heap w2) = planned Old (heap w) ?as (content (heap w1))" by simp
    from entry_pass [OF ind q' a2 3] have a3: "agrees ?W (heap w3) (heap w)"
      and c3: "content (heap w3) = planned New (heap w) ?as (content (heap w2))" by simp_all
    show "shape_of (heap w3 a) = shape_of (heap w1 a)" for a
      using a1 a3 by (simp add: agrees_def)
    show "content (heap w3) l = content (heap w1) l" for l
    proof (cases "l \<in> ?W")
      case True
      then show ?thesis unfolding c3 c1 by (rule planned_inside)
    next
      case False
      then show ?thesis by (simp add: c3 c2 planned_outside)
    qed
  qed
  with 2 3 show ?thesis by blast
qed

text \<open>That entry is what the four calls of the transaction commit.\<close>

lemma dep_entry_committed:
  "(case startTransaction (Some ''batch'') (initial \<lparr>heap = dep_heap (Ref 2) 0 7, console = []\<rparr>) of
      (ok, s1) \<Rightarrow>
        (case updateValue (Ref 0) [''a''] (Ref 1) None (Some ex_data) False s1 of
           Some (Done h1 s2) \<Rightarrow>
             (case updateValue (Ref 0) [''a'', ''x''] (Num 1) None (Some ex_data) False s2 of
                Some (Done h2 s3) \<Rightarrow> commitTransaction s3
              | _ \<Rightarrow> None)
         | _ \<Rightarrow> None))
   = Some (Done () \<lparr>s_HistoryIndex = 1, s_HistoryEntries = [dep_entry], s_Transaction = None,
         world = \<lparr>heap = dep_heap (Ref 1) 1 7, console = [EntryLine [7, 7] Plain ''batch'']\<rparr>\<rparr>)"
  by (simp add: startTransaction_def commitTransaction_def ex_defs op_defs acc_defs fun_upd_twist)

end
